theory Spec2Isabelle
  imports Complex_Main
begin

section \<open>JavaScript strings, numbers and JSON values\<close>

text \<open>
  The extension is JavaScript. A JavaScript string is modelled as a \<^typ>\<open>string\<close> in which
  every ASCII code unit is the character itself and every other code unit is written
  with bytes above 0x7F, so that the ASCII text the code searches for can only match
  ASCII text. \<open>toLowerCase\<close> changes the letters A to Z; none of the words and scheme
  names the code looks for can arise from lower-casing a non-ASCII letter.
\<close>

definition toLowerCase_char :: "char \<Rightarrow> char" where
  "toLowerCase_char c =
     (case map_of (zip ''ABCDEFGHIJKLMNOPQRSTUVWXYZ'' ''abcdefghijklmnopqrstuvwxyz'') c of
        Some l \<Rightarrow> l
      | None \<Rightarrow> c)"

definition toLowerCase :: "string \<Rightarrow> string" where
  "toLowerCase s = map toLowerCase_char s"

definition startsWith :: "string \<Rightarrow> string \<Rightarrow> bool" where
  "startsWith s p = (take (length p) s = p)"

text \<open>\<open>String.prototype.includes\<close>: the pattern occurs at some position of the string.\<close>

fun str_includes :: "string \<Rightarrow> string \<Rightarrow> bool" where
  "str_includes [] p = (p = [])"
| "str_includes (c # cs) p = (startsWith (c # cs) p \<or> str_includes cs p)"

text \<open>
  A JavaScript number is modelled by its exact value, with the three values that are
  not rationals. The rounding of a decimal literal to a double and the sign of zero
  are not modelled.
\<close>

datatype jsnum = Num rat | NaN | PosInf | NegInf

fun Math_max :: "jsnum \<Rightarrow> jsnum \<Rightarrow> jsnum" where
  "Math_max NaN b = NaN"
| "Math_max a NaN = NaN"
| "Math_max PosInf b = PosInf"
| "Math_max a PosInf = PosInf"
| "Math_max NegInf b = b"
| "Math_max a NegInf = a"
| "Math_max (Num x) (Num y) = Num (max x y)"

fun Math_min :: "jsnum \<Rightarrow> jsnum \<Rightarrow> jsnum" where
  "Math_min NaN b = NaN"
| "Math_min a NaN = NaN"
| "Math_min NegInf b = NegInf"
| "Math_min a NegInf = NegInf"
| "Math_min PosInf b = b"
| "Math_min a PosInf = a"
| "Math_min (Num x) (Num y) = Num (min x y)"

text \<open>\<open>a >= b\<close> and \<open>a < b\<close> on numbers: every comparison with NaN is false.\<close>

fun js_ge :: "jsnum \<Rightarrow> jsnum \<Rightarrow> bool" where
  "js_ge NaN b = False"
| "js_ge a NaN = False"
| "js_ge PosInf b = True"
| "js_ge a NegInf = True"
| "js_ge NegInf b = False"
| "js_ge a PosInf = False"
| "js_ge (Num x) (Num y) = (y \<le> x)"

fun js_lt :: "jsnum \<Rightarrow> jsnum \<Rightarrow> bool" where
  "js_lt NaN b = False"
| "js_lt a NaN = False"
| "js_lt PosInf b = False"
| "js_lt a NegInf = False"
| "js_lt NegInf b = True"
| "js_lt a PosInf = True"
| "js_lt (Num x) (Num y) = (x < y)"

text \<open>The values \<open>JSON.parse\<close> can return. An object keeps its members in source order.\<close>

datatype json =
    JNull
  | JBool bool
  | JNum rat
  | JStr string
  | JArr "json list"
  | JObj "(string \<times> json) list"

text \<open>
  \<open>obj.name\<close> on a parsed value: \<open>None\<close> is \<open>undefined\<close>. When a key is written twice
  the later member wins, as in \<open>JSON.parse\<close>.
\<close>

fun get_prop :: "json \<Rightarrow> string \<Rightarrow> json option" where
  "get_prop (JObj members) name = map_of (rev members) name"
| "get_prop v name = None"

text \<open>Truthiness, for \<open>x || d\<close>.\<close>

fun truthy :: "json \<Rightarrow> bool" where
  "truthy JNull = False"
| "truthy (JBool b) = b"
| "truthy (JNum q) = (q \<noteq> 0)"
| "truthy (JStr s) = (s \<noteq> [])"
| "truthy (JArr xs) = True"
| "truthy (JObj members) = True"

definition or_default :: "json option \<Rightarrow> json \<Rightarrow> json" where
  "or_default v d = (case v of None \<Rightarrow> d | Some x \<Rightarrow> if truthy x then x else d)"

text \<open>
  \<open>ToNumber\<close>, which \<open>Math.max\<close> applies to its arguments. On a string, an array or an
  object the conversion is the runtime's (\<open>coerce\<close>, a parameter of the model); it
  returns \<open>None\<close> where the runtime throws a TypeError.
\<close>

fun ToNumber :: "(json \<Rightarrow> jsnum option) \<Rightarrow> json \<Rightarrow> jsnum option" where
  "ToNumber coerce JNull = Some (Num 0)"
| "ToNumber coerce (JBool b) = Some (Num (if b then 1 else 0))"
| "ToNumber coerce (JNum q) = Some (Num q)"
| "ToNumber coerce v = coerce v"

subsection \<open>\<open>JSON.parse\<close>\<close>

definition is_json_ws :: "char \<Rightarrow> bool" where
  "is_json_ws c = (c = CHR '' '' \<or> c = CHR 0x09 \<or> c = CHR 0x0A \<or> c = CHR 0x0D)"

definition skip_ws :: "string \<Rightarrow> string" where
  "skip_ws s = dropWhile is_json_ws s"

definition is_digit :: "char \<Rightarrow> bool" where
  "is_digit c = (c \<in> set ''0123456789'')"

definition digit_val :: "char \<Rightarrow> nat" where
  "digit_val c = (case map_of (zip ''0123456789'' [0, 1, 2, 3, 4, 5, 6, 7, 8, 9]) c of
                    Some d \<Rightarrow> d
                  | None \<Rightarrow> 0)"

definition digits_val :: "string \<Rightarrow> nat" where
  "digits_val ds = foldl (\<lambda>a c. 10 * a + digit_val c) 0 ds"

definition hex_val :: "char \<Rightarrow> nat option" where
  "hex_val c =
     map_of (zip ''0123456789abcdefABCDEF''
                 [0, 1, 2, 3, 4, 5, 6, 7, 8, 9, 10, 11, 12, 13, 14, 15, 10, 11, 12, 13, 14, 15]) c"

text \<open>The four hexadecimal digits of a \<open>\uXXXX\<close> escape.\<close>

definition hex4 :: "string \<Rightarrow> nat option" where
  "hex4 s =
     (case map hex_val s of
        [Some a, Some b, Some c, Some d] \<Rightarrow> Some (((a * 16 + b) * 16 + c) * 16 + d)
      | _ \<Rightarrow> None)"

text \<open>A code unit as the model writes it: ASCII as itself, the others in bytes above 0x7F.\<close>

definition code_unit :: "nat \<Rightarrow> string" where
  "code_unit n =
     (if n < 128 then [char_of n]
      else if n < 2048 then [char_of (192 + n div 64), char_of (128 + n mod 64)]
      else [char_of (224 + n div 4096), char_of (128 + (n div 64) mod 64), char_of (128 + n mod 64)])"

definition unescape :: "char \<Rightarrow> char option" where
  "unescape e =
     map_of [(CHR 0x22, CHR 0x22), (CHR 0x5C, CHR 0x5C), (CHR ''/'', CHR ''/''),
             (CHR ''b'', CHR 0x08), (CHR ''f'', CHR 0x0C), (CHR ''n'', CHR 0x0A),
             (CHR ''r'', CHR 0x0D), (CHR ''t'', CHR 0x09)] e"

text \<open>
  The characters of a string literal after its opening quote, up to the closing quote:
  the string and the rest of the input. \<open>acc\<close> holds the characters read, last first.
\<close>

fun parse_chars :: "string \<Rightarrow> string \<Rightarrow> (string \<times> string) option" where
  "parse_chars acc [] = None"
| "parse_chars acc (c # cs) =
     (if c = CHR 0x22 then Some (rev acc, cs)
      else if c = CHR 0x5C then
        (case cs of
           [] \<Rightarrow> None
         | e # r \<Rightarrow>
             if e = CHR ''u'' then
               (case hex4 (take 4 r) of
                  None \<Rightarrow> None
                | Some n \<Rightarrow> parse_chars (rev (code_unit n) @ acc) (drop 4 r))
             else
               (case unescape e of
                  None \<Rightarrow> None
                | Some x \<Rightarrow> parse_chars (x # acc) r))
      else if (of_char c :: nat) < 32 then None
      else parse_chars (c # acc) cs)"

text \<open>
  A number literal at the head of the input: \<open>-? (0 | [1-9][0-9]*) (. [0-9]+)? ([eE] [+-]? [0-9]+)?\<close>.
\<close>

definition parse_int_part :: "string \<Rightarrow> (string \<times> string) option" where
  "parse_int_part s =
     (case s of
        [] \<Rightarrow> None
      | c # cs \<Rightarrow>
          if c = CHR ''0'' then Some ([c], cs)
          else if is_digit c then Some (takeWhile is_digit s, dropWhile is_digit s)
          else None)"

definition parse_frac_part :: "string \<Rightarrow> (string \<times> string) option" where
  "parse_frac_part s =
     (case s of
        [] \<Rightarrow> Some ([], s)
      | c # cs \<Rightarrow>
          if c = CHR ''.'' then
            (if takeWhile is_digit cs = [] then None
             else Some (takeWhile is_digit cs, dropWhile is_digit cs))
          else Some ([], s))"

definition parse_exp_part :: "string \<Rightarrow> (int \<times> string) option" where
  "parse_exp_part s =
     (case s of
        [] \<Rightarrow> Some (0, s)
      | c # cs \<Rightarrow>
          if c = CHR ''e'' \<or> c = CHR ''E'' then
            (let neg = (case cs of [] \<Rightarrow> False | d # ds \<Rightarrow> d = CHR ''-'');
                 signed = (case cs of [] \<Rightarrow> False | d # ds \<Rightarrow> d = CHR ''-'' \<or> d = CHR ''+'');
                 r = (if signed then tl cs else cs)
             in if takeWhile is_digit r = [] then None
                else Some ((if neg then - int (digits_val (takeWhile is_digit r))
                            else int (digits_val (takeWhile is_digit r))),
                           dropWhile is_digit r))
          else Some (0, s))"

definition pow10 :: "int \<Rightarrow> rat" where
  "pow10 e = (if 0 \<le> e then 10 ^ nat e else 1 / 10 ^ nat (- e))"

text \<open>
  The value of a number literal, exact. \<open>JSON.parse\<close> rounds it to the nearest double, so
  that a literal nearer to 0 than any other double (such as \<open>1e-324\<close>) reads as 0 there;
  that rounding is not modelled.
\<close>

definition parse_number :: "string \<Rightarrow> (rat \<times> string) option" where
  "parse_number s =
     (let neg = (case s of [] \<Rightarrow> False | c # cs \<Rightarrow> c = CHR ''-'');
          s1 = (if neg then tl s else s)
      in (case parse_int_part s1 of
           None \<Rightarrow> None
         | Some (ip, s2) \<Rightarrow>
             (case parse_frac_part s2 of
                None \<Rightarrow> None
              | Some (fp, s3) \<Rightarrow>
                  (case parse_exp_part s3 of
                     None \<Rightarrow> None
                   | Some (e, s4) \<Rightarrow>
                       let m = (of_nat (digits_val ip) + of_nat (digits_val fp) / 10 ^ length fp) * pow10 e
                       in Some (if neg then - m else m, s4)))))"

text \<open>
  A recursive-descent parser of the JSON grammar. Its first argument bounds the number
  of nested calls; \<open>JSON_parse\<close> below gives it more than any input can use
  (lemma \<open>JSON_parse_fuel\<close>), so \<open>OutOfFuel\<close> is never its answer.
\<close>

datatype presult = OutOfFuel | Invalid | Parsed json string

fun parse_value :: "nat \<Rightarrow> string \<Rightarrow> presult"
  and parse_elems :: "nat \<Rightarrow> json list \<Rightarrow> string \<Rightarrow> presult"
  and parse_members :: "nat \<Rightarrow> (string \<times> json) list \<Rightarrow> string \<Rightarrow> presult"
where
  "parse_value 0 s = OutOfFuel"
| "parse_value (Suc n) s =
     (case s of
        [] \<Rightarrow> Invalid
      | c # cs \<Rightarrow>
          if c = CHR ''{'' then
            (case skip_ws cs of
               [] \<Rightarrow> Invalid
             | d # ds \<Rightarrow> if d = CHR ''}'' then Parsed (JObj []) ds else parse_members n [] (d # ds))
          else if c = CHR ''['' then
            (case skip_ws cs of
               [] \<Rightarrow> Invalid
             | d # ds \<Rightarrow> if d = CHR '']'' then Parsed (JArr []) ds else parse_elems n [] (d # ds))
          else if c = CHR 0x22 then
            (case parse_chars [] cs of
               None \<Rightarrow> Invalid
             | Some (str, r) \<Rightarrow> Parsed (JStr str) r)
          else if take 4 s = ''true'' then Parsed (JBool True) (drop 4 s)
          else if take 5 s = ''false'' then Parsed (JBool False) (drop 5 s)
          else if take 4 s = ''null'' then Parsed JNull (drop 4 s)
          else
            (case parse_number s of
               None \<Rightarrow> Invalid
             | Some (q, r) \<Rightarrow> Parsed (JNum q) r))"
| "parse_elems 0 acc s = OutOfFuel"
| "parse_elems (Suc n) acc s =
     (case parse_value n s of
        OutOfFuel \<Rightarrow> OutOfFuel
      | Invalid \<Rightarrow> Invalid
      | Parsed v r \<Rightarrow>
          (case skip_ws r of
             [] \<Rightarrow> Invalid
           | d # ds \<Rightarrow>
               if d = CHR '','' then parse_elems n (v # acc) (skip_ws ds)
               else if d = CHR '']'' then Parsed (JArr (rev (v # acc))) ds
               else Invalid))"
| "parse_members 0 acc s = OutOfFuel"
| "parse_members (Suc n) acc s =
     (case s of
        [] \<Rightarrow> Invalid
      | q # cs \<Rightarrow>
          if q \<noteq> CHR 0x22 then Invalid
          else
            (case parse_chars [] cs of
               None \<Rightarrow> Invalid
             | Some (key, r) \<Rightarrow>
                 (case skip_ws r of
                    [] \<Rightarrow> Invalid
                  | colon # r2 \<Rightarrow>
                      if colon \<noteq> CHR '':'' then Invalid
                      else
                        (case parse_value n (skip_ws r2) of
                           OutOfFuel \<Rightarrow> OutOfFuel
                         | Invalid \<Rightarrow> Invalid
                         | Parsed v r3 \<Rightarrow>
                             (case skip_ws r3 of
                                [] \<Rightarrow> Invalid
                              | d # ds \<Rightarrow>
                                  if d = CHR '','' then parse_members n ((key, v) # acc) (skip_ws ds)
                                  else if d = CHR ''}'' then Parsed (JObj (rev ((key, v) # acc))) ds
                                  else Invalid)))))"

text \<open>\<open>JSON.parse(text)\<close>: \<open>None\<close> when it throws a SyntaxError.\<close>

definition JSON_parse :: "string \<Rightarrow> json option" where
  "JSON_parse s =
     (case parse_value (2 * length s + 2) (skip_ws s) of
        Parsed v r \<Rightarrow> if skip_ws r = [] then Some v else None
      | Invalid \<Rightarrow> None
      | OutOfFuel \<Rightarrow> None)"

subsection \<open>\<open>JSON.stringify\<close>\<close>

text \<open>
  \<open>JSON.stringify\<close> of a parsed value, without indentation. A number is written in
  decimal digits when it is an integer below \<open>10^21\<close> in magnitude; how the runtime
  writes the other numbers is not modelled (\<open>None\<close>).
\<close>

function show_nat :: "nat \<Rightarrow> string" where
  "show_nat n =
     (if n < 10 then [''0123456789'' ! n]
      else show_nat (n div 10) @ [''0123456789'' ! (n mod 10)])"
  by pat_completeness auto
termination
  by (relation "measure (\<lambda>n. n)") auto

definition show_number :: "rat \<Rightarrow> string option" where
  "show_number q =
     (if q = of_int \<lfloor>q\<rfloor> \<and> \<bar>q\<bar> < 10 ^ 21
      then Some ((if q < 0 then ''-'' else []) @ show_nat (nat \<bar>\<lfloor>q\<rfloor>\<bar>))
      else None)"

definition hex_digit :: "nat \<Rightarrow> char" where
  "hex_digit n = ''0123456789abcdef'' ! n"

definition quote_char :: "char \<Rightarrow> string" where
  "quote_char c =
     (if c = CHR 0x22 then [CHR 0x5C, CHR 0x22]
      else if c = CHR 0x5C then [CHR 0x5C, CHR 0x5C]
      else if c = CHR 0x08 then [CHR 0x5C, CHR ''b'']
      else if c = CHR 0x0C then [CHR 0x5C, CHR ''f'']
      else if c = CHR 0x0A then [CHR 0x5C, CHR ''n'']
      else if c = CHR 0x0D then [CHR 0x5C, CHR ''r'']
      else if c = CHR 0x09 then [CHR 0x5C, CHR ''t'']
      else if (of_char c :: nat) < 32
      then [CHR 0x5C, CHR ''u'', CHR ''0'', CHR ''0'',
            hex_digit ((of_char c :: nat) div 16), hex_digit ((of_char c :: nat) mod 16)]
      else [c])"

definition quote :: "string \<Rightarrow> string" where
  "quote s = [CHR 0x22] @ concat (map quote_char s) @ [CHR 0x22]"

fun join :: "string \<Rightarrow> string list \<Rightarrow> string" where
  "join sep [] = []"
| "join sep [x] = x"
| "join sep (x # y # ys) = x @ sep @ join sep (y # ys)"

text \<open>\<open>None\<close> when some part of the value has no modelled text.\<close>

definition all_some :: "'a option list \<Rightarrow> 'a list option" where
  "all_some xs = (if list_all (\<lambda>x. x \<noteq> None) xs then Some (map the xs) else None)"

fun JSON_stringify :: "json \<Rightarrow> string option" where
  "JSON_stringify JNull = Some ''null''"
| "JSON_stringify (JBool b) = Some (if b then ''true'' else ''false'')"
| "JSON_stringify (JNum q) = show_number q"
| "JSON_stringify (JStr s) = Some (quote s)"
| "JSON_stringify (JArr xs) =
     (case all_some (map JSON_stringify xs) of
        None \<Rightarrow> None
      | Some parts \<Rightarrow> Some (''['' @ join '','' parts @ '']''))"
| "JSON_stringify (JObj members) =
     (case all_some (map (\<lambda>(k, v). map_option (\<lambda>text. quote k @ '':'' @ text) (JSON_stringify v)) members) of
        None \<Rightarrow> None
      | Some parts \<Rightarrow> Some (''{'' @ join '','' parts @ ''}''))"

section \<open>The background service worker (\<open>src/background.js\<close>)\<close>

text \<open>An argument that the code expects to be a string: a string, or any other value.\<close>

datatype js_value = Str string | NotString

text \<open>A thrown value. \<open>message\<close> is its \<open>error.message\<close>; the text of an error the
  runtime itself throws is the runtime's (\<open>engine_message\<close>, a parameter of the model).\<close>

datatype exn = SyntaxError | TypeError | Error string

record scan_result =
  legitimacyScore :: jsnum
  reasoning :: "json list"
  url :: string
  timestamp :: int
  fallback :: bool
  modelUsed :: "string option"
  modelDisplayName :: "string option"

text \<open>
  In \<^typ>\<open>scan_result\<close>, \<open>fallback\<close> is \<open>True\<close> when the object has the property
  \<open>fallback: true\<close> and \<open>False\<close> when it has no such property; \<open>None\<close> in \<open>modelUsed\<close> and
  \<open>modelDisplayName\<close> is \<open>undefined\<close>.
\<close>

datatype verdict = Legitimate | Uncertain | Phishing

record history_item =
  item_url :: string
  item_domain :: string
  item_verdict :: verdict
  item_legitimacyScore :: jsnum
  item_timestamp :: int

text \<open>The keys of \<open>chrome.storage.sync\<close> that the worker reads and writes.\<close>

record sync_storage =
  sync_geminiApiKey :: "string option"
  sync_safeThreshold :: "int option"
  sync_cautionThreshold :: "int option"
  sync_selectedModel :: "string option"
  sync_scanHistory :: "history_item list option"

text \<open>
  What \<open>getPageContent\<close> returns, as far as the pipeline after it reads it:
  \<open>pageData.urlInfo.fullUrl\<close> and the flag \<open>scanPage\<close> adds. The other fields only
  fill the prompt of \<open>buildAnalysisPrompt\<close>, which every extraction path sets and
  which no answer of the remote side depends on in this model.
\<close>

record page_data =
  fullUrl :: string
  isDomainSuspicious :: bool

text \<open>
  The answer to one \<open>fetch\<close> of \<open>analyzeWithGemini\<close>: the call or the reading of
  the response body throws (\<open>FetchFailed\<close>, with the thrown value), the response is not \<open>ok\<close> (\<open>NotOk\<close>, with
  \<open>errorData.error?.message || response.statusText\<close>), or it is \<open>ok\<close> and
  \<open>data.candidates?.[0]?.content?.parts?.[0]?.text\<close> is the given value
  (\<open>None\<close> for \<open>undefined\<close> and for any other falsy value that is no string).
\<close>

datatype api_response = FetchFailed exn | NotOk string | Generated "js_value option"

text \<open>
  Everything outside the worker: the clock, the runtime's conversions and messages,
  whether \<open>chrome.storage.sync\<close> answers, the page of each tab as \<open>getPageContent\<close>
  delivers it (or the error it throws), the remote model's answer to the n-th request
  of the worker for a given model, and \<open>new URL(u).hostname\<close> (\<open>None\<close> where the
  constructor throws).
\<close>

record world =
  Date_now :: int
  coerce :: "json \<Rightarrow> jsnum option"
  engine_message :: "exn \<Rightarrow> string"
  sync_available :: bool
  page_content :: "nat \<Rightarrow> exn + page_data"
  remote :: "nat \<Rightarrow> string option \<Rightarrow> api_response"
  URL_hostname :: "string \<Rightarrow> string option"

datatype badge = NoBadge | SafeBadge | CautionBadge | DangerBadge

text \<open>
  The fields of \<open>PhishGuardBackground\<close>, the storage area, and what the worker has done
  to the outside so far: the badge of each tab, the model of each request sent
  (\<open>fetched\<close>), the fallback notifications shown (\<open>notices\<close>, from and to), the tabs
  whose content was read (\<open>extracted\<close>) and the messages sent to content scripts
  (\<open>sent\<close>: tab, action and the reasoning shown).
\<close>

record background =
  geminiApiKey :: "string option"
  safeThreshold :: int
  cautionThreshold :: int
  scannedTabs :: "nat \<rightharpoonup> scan_result"
  selectedModel :: string
  currentModel :: "string option"
  sync :: sync_storage
  badges :: "nat \<Rightarrow> badge"
  fetched :: "string option list"
  notices :: "(string option \<times> string option) list"
  extracted :: "nat list"
  sent :: "(nat \<times> string \<times> json list) list"

definition GEMINI_CONFIG_models :: "(string \<times> string) list" where
  "GEMINI_CONFIG_models =
     [(''pro'', ''gemini-2.5-pro''),
      (''flash'', ''gemini-2.5-flash''),
      (''flashLite'', ''gemini-2.5-flash-lite'')]"

definition GEMINI_CONFIG_fallbackOrder :: "string list" where
  "GEMINI_CONFIG_fallbackOrder = [''pro'', ''flash'', ''flashLite'']"

definition GEMINI_CONFIG_defaultModel :: string where
  "GEMINI_CONFIG_defaultModel = ''flashLite''"

fun message :: "world \<Rightarrow> exn \<Rightarrow> string" where
  "message w (Error m) = m"
| "message w e = engine_message w e"

text \<open>\<open>x || d\<close> on an optional stored value: \<open>undefined\<close>, the empty string and 0 are falsy.\<close>

definition str_or :: "string option \<Rightarrow> string \<Rightarrow> string" where
  "str_or v d = (case v of None \<Rightarrow> d | Some x \<Rightarrow> if x = [] then d else x)"

definition int_or :: "int option \<Rightarrow> int \<Rightarrow> int" where
  "int_or v d = (case v of None \<Rightarrow> d | Some x \<Rightarrow> if x = 0 then d else x)"

text \<open>
  \<open>loadSettings\<close> from the answer of the storage area on (lines 52 to 56); when the read
  throws, the fields stay as they are. \<open>GEMINI_CONFIG.models[key]\<close> is the entry of one
  of the three keys of that object: a stored \<open>selectedModel\<close> that names a property the
  object inherits (such as \<open>constructor\<close>) is not modelled.
\<close>

definition loadSettings :: "world \<Rightarrow> background \<Rightarrow> background" where
  "loadSettings w st =
     (if \<not> sync_available w then st
      else
        let result = sync st;
            sel = str_or (sync_selectedModel result) GEMINI_CONFIG_defaultModel
        in st\<lparr>geminiApiKey :=
                 (case sync_geminiApiKey result of
                    None \<Rightarrow> None
                  | Some k \<Rightarrow> if k = [] then None else Some k),
               safeThreshold := int_or (sync_safeThreshold result) 80,
               cautionThreshold := int_or (sync_cautionThreshold result) 50,
               selectedModel := sel,
               currentModel := map_of GEMINI_CONFIG_models sel\<rparr>)"

text \<open>The list \<open>unscannable\<close> of \<open>isScannableUrl\<close>.\<close>

definition unscannable :: "string list" where
  "unscannable =
     [''chrome://'', ''chrome-extension://'',
      ''about:'', ''file://'', ''data:'', ''javascript:'', ''mailto:'',
      ''tel:'', ''ftp://'', ''chrome-search://'', ''chrome-devtools://'']"

text \<open>\<open>!url\<close> holds of a value that is no string when it is falsy, and
  \<open>typeof url !== 'string'\<close> holds of it in any case.\<close>

definition isScannableUrl :: "js_value \<Rightarrow> bool" where
  "isScannableUrl u =
     (case u of
        NotString \<Rightarrow> False
      | Str s \<Rightarrow>
          if s = [] then False
          else
            let urlLower = toLowerCase s
            in \<not> list_ex (\<lambda>scheme. startsWith urlLower scheme) unscannable)"

definition isSuspiciousDomain :: "world \<Rightarrow> string \<Rightarrow> bool" where
  "isSuspiciousDomain w u =
     (case URL_hostname w u of
        None \<Rightarrow> False
      | Some h \<Rightarrow>
          let domain = toLowerCase h
          in str_includes domain ''secure'' \<or>
             str_includes domain ''verify'' \<or>
             str_includes domain ''update'' \<or>
             str_includes domain ''account'' \<or>
             str_includes domain ''login'' \<or>
             str_includes domain ''signin'')"

definition getModelDisplayName :: "string option \<Rightarrow> string option" where
  "getModelDisplayName modelValue =
     (case modelValue of
        None \<Rightarrow> None
      | Some m \<Rightarrow>
          (case map_of [(''gemini-2.5-pro'', ''Gemini 2.5 Pro''),
                        (''gemini-2.5-flash'', ''Gemini 2.5 Flash''),
                        (''gemini-2.5-flash-lite'', ''Gemini 2.5 Flash Lite'')] m of
             Some d \<Rightarrow> Some d
           | None \<Rightarrow> Some m))"

subsection \<open>The response parser and the fallback classifier\<close>

definition fallbackAnalysis :: "world \<Rightarrow> background \<Rightarrow> string \<Rightarrow> js_value \<Rightarrow> exn + scan_result" where
  "fallbackAnalysis w st u responseText =
     (case responseText of
        NotString \<Rightarrow> Inl TypeError
      | Str t \<Rightarrow>
          let lowerResponse = toLowerCase t;
              (score, reason) =
                (if str_includes lowerResponse ''phishing'' \<or>
                    str_includes lowerResponse ''suspicious'' \<or>
                    str_includes lowerResponse ''malicious''
                 then (25, ''Phishing indicators detected in content analysis'')
                 else if str_includes lowerResponse ''legitimate'' \<or>
                         str_includes lowerResponse ''safe'' \<or>
                         str_includes lowerResponse ''trusted''
                 then (65, ''Content appears legitimate based on analysis'')
                 else (50, ''Automated analysis based on response patterns''))
          in Inr \<lparr>legitimacyScore = Num score,
                   reasoning = [JStr reason],
                   url = u,
                   timestamp = Date_now w,
                   fallback = True,
                   modelUsed = currentModel st,
                   modelDisplayName = getModelDisplayName (currentModel st)\<rparr>)"

text \<open>\<open>responseText.replace(/```json|```/g, '')\<close>, read from the left.\<close>

definition fence :: string where
  "fence = [CHR 0x60, CHR 0x60, CHR 0x60]"

fun strip_fences :: "string \<Rightarrow> string" where
  "strip_fences [] = []"
| "strip_fences (c # cs) =
     (if startsWith (c # cs) (fence @ ''json'') then strip_fences (drop 6 cs)
      else if startsWith (c # cs) fence then strip_fences (drop 2 cs)
      else c # strip_fences cs)"

definition is_space :: "char \<Rightarrow> bool" where
  "is_space c = (c \<in> set [CHR '' '', CHR 0x09, CHR 0x0A, CHR 0x0B, CHR 0x0C, CHR 0x0D])"

text \<open>\<open>trim\<close>, on the white space of ASCII. The match below does not depend on what
  is trimmed (lemma \<open>match_braces_trim\<close>).\<close>

definition trim :: "string \<Rightarrow> string" where
  "trim s = rev (dropWhile is_space (rev (dropWhile is_space s)))"

text \<open>
  \<open>s.match(/\{[\s\S]*\}/)\<close>: from the first opening brace to the last closing brace
  after it; \<open>None\<close> when there is no such pair.
\<close>

definition match_braces :: "string \<Rightarrow> string option" where
  "match_braces s =
     (case dropWhile (\<lambda>c. c \<noteq> CHR ''{'') s of
        [] \<Rightarrow> None
      | b # r \<Rightarrow>
          (case rev (dropWhile (\<lambda>c. c \<noteq> CHR ''}'') (rev r)) of
             [] \<Rightarrow> None
           | m # ms \<Rightarrow> Some (b # m # ms)))"

text \<open>The body of the \<open>try\<close> block of \<open>parseGeminiResponse\<close>, and the function with its \<open>catch\<close>.\<close>

definition parseGeminiResponse_try ::
    "world \<Rightarrow> background \<Rightarrow> js_value \<Rightarrow> string \<Rightarrow> exn + scan_result" where
  "parseGeminiResponse_try w st responseText u =
     (case responseText of
        NotString \<Rightarrow> Inl TypeError
      | Str t \<Rightarrow>
          let cleanedResponse = trim (strip_fences t)
          in (case match_braces cleanedResponse of
               None \<Rightarrow> fallbackAnalysis w st u responseText
             | Some jsonMatch \<Rightarrow>
                 (case JSON_parse jsonMatch of
                    None \<Rightarrow> Inl SyntaxError
                  | Some parsed \<Rightarrow>
                      (case ToNumber (coerce w) (or_default (get_prop parsed ''legitimacyScore'') (JNum 50)) of
                         None \<Rightarrow> Inl TypeError
                       | Some n \<Rightarrow>
                           Inr \<lparr>legitimacyScore = Math_min (Math_max n (Num 0)) (Num 100),
                                 reasoning =
                                   (case get_prop parsed ''reasoning'' of
                                      Some (JArr xs) \<Rightarrow> xs
                                    | _ \<Rightarrow> [JStr ''Analysis completed'']),
                                 url = u,
                                 timestamp = Date_now w,
                                 fallback = False,
                                 modelUsed = currentModel st,
                                 modelDisplayName = getModelDisplayName (currentModel st)\<rparr>))))"

definition parseGeminiResponse ::
    "world \<Rightarrow> background \<Rightarrow> js_value \<Rightarrow> string \<Rightarrow> exn + scan_result" where
  "parseGeminiResponse w st responseText u =
     (case parseGeminiResponse_try w st responseText u of
        Inl error \<Rightarrow> fallbackAnalysis w st u responseText
      | Inr result \<Rightarrow> Inr result)"

subsection \<open>The model invoker and the tier chain\<close>

text \<open>\<open>Array.prototype.indexOf\<close>: the first position of the element, or -1.\<close>

fun indexOf :: "'a list \<Rightarrow> 'a \<Rightarrow> int" where
  "indexOf [] x = - 1"
| "indexOf (y # ys) x = (if y = x then 0 else let i = indexOf ys x in if i < 0 then - 1 else i + 1)"

text \<open>
  \<open>getNextFallbackModel\<close>: \<open>None\<close> stands for the \<open>null\<close> it returns and for an
  \<open>undefined\<close> entry of \<open>GEMINI_CONFIG.models\<close>, which the caller treats alike.
\<close>

definition getNextFallbackModel :: "background \<Rightarrow> string option" where
  "getNextFallbackModel st =
     (case find (\<lambda>key. map_of GEMINI_CONFIG_models key = currentModel st)
                (map fst GEMINI_CONFIG_models) of
        None \<Rightarrow> None
      | Some currentModelKey \<Rightarrow>
          let currentIndex = indexOf GEMINI_CONFIG_fallbackOrder currentModelKey;
              nextIndex = currentIndex + 1
          in if nextIndex < int (length GEMINI_CONFIG_fallbackOrder)
             then map_of GEMINI_CONFIG_models (GEMINI_CONFIG_fallbackOrder ! nat nextIndex)
             else None)"

text \<open>
  The \<open>try\<close> block of \<open>analyzeWithGemini\<close>: one request to the current model. The
  answer is the world's answer to the request with this number and this model.
\<close>

definition request :: "world \<Rightarrow> background \<Rightarrow> page_data \<Rightarrow> exn + scan_result" where
  "request w st pageData =
     (case remote w (length (fetched st)) (currentModel st) of
        FetchFailed e \<Rightarrow> Inl e
      | NotOk m \<Rightarrow> Inl (Error (''API request failed: '' @ m))
      | Generated generatedText \<Rightarrow>
          (case generatedText of
             None \<Rightarrow> Inl (Error ''No response from Gemini API'')
           | Some text \<Rightarrow>
               if text = Str [] then Inl (Error ''No response from Gemini API'')
               else parseGeminiResponse w st text (fullUrl pageData)))"

text \<open>The position of a model in the chain, from the end: what the recursion decreases.\<close>

definition tiers_left :: "string option \<Rightarrow> nat" where
  "tiers_left m =
     (if m = Some ''gemini-2.5-pro'' then 3
      else if m = Some ''gemini-2.5-flash'' then 2
      else if m = Some ''gemini-2.5-flash-lite'' then 1
      else 0)"

function analyzeWithGemini ::
    "world \<Rightarrow> background \<Rightarrow> page_data \<Rightarrow> (exn + scan_result) \<times> background" where
  "analyzeWithGemini w st pageData =
     (let st1 = st\<lparr>fetched := fetched st @ [currentModel st]\<rparr>
      in case request w st pageData of
           Inr result \<Rightarrow> (Inr result, st1)
         | Inl error \<Rightarrow>
             (case getNextFallbackModel st1 of
                Some nextModel \<Rightarrow>
                  analyzeWithGemini w
                    (st1\<lparr>notices := notices st1 @
                                      [(getModelDisplayName (currentModel st1),
                                        getModelDisplayName (Some nextModel))],
                         currentModel := Some nextModel\<rparr>)
                    pageData
              | None \<Rightarrow>
                  (Inl (Error (''All Gemini models failed: '' @ message w error)),
                   st1\<lparr>currentModel := map_of GEMINI_CONFIG_models (selectedModel st1)\<rparr>)))"
  by pat_completeness auto
termination
proof (relation "measure (\<lambda>(w, st, pageData). tiers_left (currentModel st))")
  show "wf (measure (\<lambda>(w, st, pageData). tiers_left (currentModel st)))"
    by simp
next
  fix w :: world and st :: background and pageData :: page_data
    and st1 :: background and error :: exn and nextModel :: string
  assume st1: "st1 = st\<lparr>fetched := fetched st @ [currentModel st]\<rparr>"
    and nxt: "getNextFallbackModel st1 = Some nextModel"
  from st1 have cur: "currentModel st1 = currentModel st"
    by simp
  from nxt cur have "tiers_left (Some nextModel) < tiers_left (currentModel st)"
    by (auto simp: getNextFallbackModel_def GEMINI_CONFIG_models_def
        GEMINI_CONFIG_fallbackOrder_def tiers_left_def split: if_splits)
  then show "((w, st1\<lparr>notices := notices st1 @
                          [(getModelDisplayName (currentModel st1),
                            getModelDisplayName (Some nextModel))],
                      currentModel := Some nextModel\<rparr>, pageData),
              (w, st, pageData))
             \<in> measure (\<lambda>(w, st, pageData). tiers_left (currentModel st))"
    by simp
qed

text \<open>
  \<open>analyzeWithGemini\<close> above is a function of the worker in which the call starts: it
  is what the call computes when no other handler runs before it ends. The worker
  runs one handler at a time, but an async function gives way at each \<open>await\<close> of an
  outside call, and other handlers, among them other scans, run before it goes on;
  \<open>this.currentModel\<close> is a field of the worker that all of them share. The two
  definitions below take the call from one \<open>fetch\<close> to the next; with no other handler
  in between they compute the function above (lemma \<open>analysis_uninterrupted\<close>).

  \<open>settle\<close> is the rest of the \<open>try\<close> block once the answer to the \<open>fetch\<close> is there
  (lines 444 to 456); the two \<open>await response.json()\<close> are taken as part of that answer.
\<close>

definition settle :: "world \<Rightarrow> background \<Rightarrow> page_data \<Rightarrow> api_response \<Rightarrow> exn + scan_result" where
  "settle w st pageData response =
     (case response of
        FetchFailed e \<Rightarrow> Inl e
      | NotOk m \<Rightarrow> Inl (Error (''API request failed: '' @ m))
      | Generated generatedText \<Rightarrow>
          (case generatedText of
             None \<Rightarrow> Inl (Error ''No response from Gemini API'')
           | Some text \<Rightarrow>
               if text = Str [] then Inl (Error ''No response from Gemini API'')
               else parseGeminiResponse w st text (fullUrl pageData)))"

text \<open>
  Where a scan waits: for the storage area in \<open>loadSettings\<close> (line 46, awaited on
  line 183), for \<open>getPageContent\<close> (line 194), or for the answer to a \<open>fetch\<close> (line 432),
  with the page data, the number of the request and the model it asked; or it has
  ended, with the result it returned or the error it threw.
\<close>

datatype phase =
    AwaitSettings
  | AwaitPage
  | AwaitFetch page_data nat "string option"
  | Finished "exn + scan_result"

text \<open>
  A call of \<open>analyzeWithGemini\<close> up to its \<open>fetch\<close> (lines 428 to 432), which asks the
  model that is current then; and the call from the answer on (lines 444 to 476), which
  reads \<open>this.currentModel\<close> again, in \<open>parseGeminiResponse\<close> and in
  \<open>getNextFallbackModel\<close>, and ends with the next call up to its \<open>fetch\<close>.
\<close>

definition analyzeWithGemini_call :: "background \<Rightarrow> page_data \<Rightarrow> phase \<times> background" where
  "analyzeWithGemini_call st pageData =
     (AwaitFetch pageData (length (fetched st)) (currentModel st),
      st\<lparr>fetched := fetched st @ [currentModel st]\<rparr>)"

definition analyzeWithGemini_resume ::
    "world \<Rightarrow> background \<Rightarrow> page_data \<Rightarrow> nat \<Rightarrow> string option \<Rightarrow> phase \<times> background" where
  "analyzeWithGemini_resume w st pageData n model =
     (case settle w st pageData (remote w n model) of
        Inr result \<Rightarrow> (Finished (Inr result), st)
      | Inl error \<Rightarrow>
          (case getNextFallbackModel st of
             Some nextModel \<Rightarrow>
               analyzeWithGemini_call
                 (st\<lparr>notices := notices st @
                                  [(getModelDisplayName (currentModel st),
                                    getModelDisplayName (Some nextModel))],
                     currentModel := Some nextModel\<rparr>)
                 pageData
           | None \<Rightarrow>
               (Finished (Inl (Error (''All Gemini models failed: '' @ message w error))),
                st\<lparr>currentModel := map_of GEMINI_CONFIG_models (selectedModel st)\<rparr>)))"

text \<open>A call of \<open>analyzeWithGemini\<close> that waits goes on with the answer of the world;
  \<open>proceed\<close> is that step with no other handler before it.\<close>

fun proceed :: "world \<Rightarrow> phase \<times> background \<Rightarrow> phase \<times> background" where
  "proceed w (AwaitFetch pageData n model, st) = analyzeWithGemini_resume w st pageData n model"
| "proceed w (ph, st) = (ph, st)"

subsection \<open>Badges, history and the scan\<close>

definition updateBadge :: "nat \<Rightarrow> scan_result \<Rightarrow> background \<Rightarrow> background" where
  "updateBadge tabId result st =
     (let score = legitimacyScore result
      in st\<lparr>badges := (badges st)
                (tabId :=
                   (if js_ge score (Num (of_int (safeThreshold st))) then SafeBadge
                    else if js_ge score (Num (of_int (cautionThreshold st))) then CautionBadge
                    else DangerBadge))\<rparr>)"

definition clearBadge :: "nat \<Rightarrow> background \<Rightarrow> background" where
  "clearBadge tabId st = st\<lparr>badges := (badges st)(tabId := NoBadge)\<rparr>"

text \<open>The verdict that \<open>saveToHistory\<close> computes (lines 696 to 704).\<close>

definition saveToHistory_verdict :: "background \<Rightarrow> scan_result \<Rightarrow> verdict" where
  "saveToHistory_verdict st result =
     (let score = legitimacyScore result
      in if js_ge score (Num (of_int (safeThreshold st))) then Legitimate
         else if js_ge score (Num (of_int (cautionThreshold st))) then Uncertain
         else Phishing)"

text \<open>\<open>saveToHistory\<close> catches what its body throws and then leaves the history as it was.\<close>

definition saveToHistory :: "world \<Rightarrow> background \<Rightarrow> scan_result \<Rightarrow> background" where
  "saveToHistory w st result =
     (if \<not> sync_available w then st
      else
        let scanHistory = (case sync_scanHistory (sync st) of None \<Rightarrow> [] | Some h \<Rightarrow> h)
        in (case URL_hostname w (url result) of
              None \<Rightarrow> st
            | Some domain \<Rightarrow>
                let historyItem =
                      \<lparr>item_url = url result,
                       item_domain = domain,
                       item_verdict = saveToHistory_verdict st result,
                       item_legitimacyScore = legitimacyScore result,
                       item_timestamp = Date_now w\<rparr>
                in st\<lparr>sync := (sync st)\<lparr>sync_scanHistory := Some (take 10 (historyItem # scanHistory))\<rparr>\<rparr>))"

text \<open>\<open>getPageContent\<close> reads the tab; what it returns or throws is the world's.\<close>

definition getPageContent :: "world \<Rightarrow> background \<Rightarrow> nat \<Rightarrow> (exn + page_data) \<times> background" where
  "getPageContent w st tabId = (page_content w tabId, st\<lparr>extracted := extracted st @ [tabId]\<rparr>)"

text \<open>The warning that \<open>scanPage\<close> sends to the page after a scan from the context menu.\<close>

definition send_warning :: "nat \<Rightarrow> scan_result \<Rightarrow> background \<Rightarrow> background" where
  "send_warning tabId result st =
     (let score = legitimacyScore result
      in if js_lt score (Num (of_int (cautionThreshold st)))
         then st\<lparr>sent := sent st @ [(tabId, ''showPhishingWarning'', reasoning result)]\<rparr>
         else if js_lt score (Num (of_int (safeThreshold st)))
         then st\<lparr>sent := sent st @
                   [(tabId, ''showSuspiciousWarning'',
                     JStr ''AI analysis indicates potential phishing risks - please proceed with caution.''
                       # reasoning result)]\<rparr>
         else st\<lparr>sent := sent st @ [(tabId, ''showSafeIndicator'', reasoning result)]\<rparr>)"

definition scanPage ::
    "world \<Rightarrow> background \<Rightarrow> nat \<Rightarrow> js_value \<Rightarrow> string \<Rightarrow> (exn + scan_result) \<times> background" where
  "scanPage w st tabId u scanSource =
     (let st1 = loadSettings w st;
          st2 = st1\<lparr>currentModel := map_of GEMINI_CONFIG_models (selectedModel st1)\<rparr>
      in if geminiApiKey st2 = None \<or> geminiApiKey st2 = Some [] then
           (Inl (Error ''API key not configured''), st2)
         else if \<not> isScannableUrl u then
           (Inl (Error ''Cannot scan this type of page''), st2)
         else
           (case getPageContent w st2 tabId of
              (Inl error, st3) \<Rightarrow> (Inl error, st3)
            | (Inr content, st3) \<Rightarrow>
                let pageData =
                      content\<lparr>isDomainSuspicious :=
                                 (case u of Str s \<Rightarrow> isSuspiciousDomain w s | NotString \<Rightarrow> False)\<rparr>
                in (case analyzeWithGemini w st3 pageData of
                      (Inl error, st4) \<Rightarrow> (Inl error, st4)
                    | (Inr result, st4) \<Rightarrow>
                        let st5 = updateBadge tabId result
                                    (st4\<lparr>scannedTabs := (scannedTabs st4)(tabId \<mapsto> result)\<rparr>);
                            st6 = (if scanSource = ''contextMenu'' then saveToHistory w st5 result else st5);
                            st7 = (if scanSource = ''contextMenu'' then send_warning tabId result st6 else st6)
                        in (Inr result, st7))))"

subsection \<open>Scans in flight\<close>

text \<open>
  \<open>scanPage\<close> above is, like \<open>analyzeWithGemini\<close>, a function of the worker in which the
  scan starts: a scan during which no other handler runs (lemma
  \<open>scanPage_uninterrupted\<close>). A scan in flight is recorded with the arguments of
  \<open>scanPage\<close>, whether \<open>handleContextMenuClick\<close> awaits it, and the point where it
  waits.
\<close>

record scan =
  scan_tabId :: nat
  scan_url :: js_value
  scan_scanSource :: string
  from_menu :: bool
  scan_phase :: phase

text \<open>
  The scan from the answer of the storage area to the call of \<open>getPageContent\<close>
  (lines 46 to 56 and 184 to 194), from the page data to the first \<open>fetch\<close> (lines 194
  to 196 and 428 to 432), and what it does once \<open>analyzeWithGemini\<close> has returned a
  result (lines 198 to 223). The calls awaited after the result is stored (lines 202
  to 219) are taken as part of that last step.
\<close>

definition scanPage_settings :: "world \<Rightarrow> background \<Rightarrow> scan \<Rightarrow> phase \<times> background" where
  "scanPage_settings w st sc =
     (let st1 = loadSettings w st;
          st2 = st1\<lparr>currentModel := map_of GEMINI_CONFIG_models (selectedModel st1)\<rparr>
      in if geminiApiKey st2 = None \<or> geminiApiKey st2 = Some [] then
           (Finished (Inl (Error ''API key not configured'')), st2)
         else if \<not> isScannableUrl (scan_url sc) then
           (Finished (Inl (Error ''Cannot scan this type of page'')), st2)
         else (AwaitPage, st2\<lparr>extracted := extracted st2 @ [scan_tabId sc]\<rparr>))"

definition scanPage_page :: "world \<Rightarrow> background \<Rightarrow> scan \<Rightarrow> phase \<times> background" where
  "scanPage_page w st sc =
     (case page_content w (scan_tabId sc) of
        Inl error \<Rightarrow> (Finished (Inl error), st)
      | Inr content \<Rightarrow>
          let pageData =
                content\<lparr>isDomainSuspicious :=
                           (case scan_url sc of Str s \<Rightarrow> isSuspiciousDomain w s | NotString \<Rightarrow> False)\<rparr>
          in analyzeWithGemini_call st pageData)"

definition scanPage_result :: "world \<Rightarrow> background \<Rightarrow> scan \<Rightarrow> scan_result \<Rightarrow> background" where
  "scanPage_result w st sc result =
     (let tabId = scan_tabId sc;
          scanSource = scan_scanSource sc;
          st5 = updateBadge tabId result
                  (st\<lparr>scannedTabs := (scannedTabs st)(tabId \<mapsto> result)\<rparr>);
          st6 = (if scanSource = ''contextMenu'' then saveToHistory w st5 result else st5);
          st7 = (if scanSource = ''contextMenu'' then send_warning tabId result st6 else st6)
      in st7)"

definition showNotification :: "nat \<Rightarrow> string \<Rightarrow> background \<Rightarrow> background" where
  "showNotification tabId msg st = st\<lparr>sent := sent st @ [(tabId, ''showNotification'', [JStr msg])]\<rparr>"

text \<open>
  A scan goes on from where it waits, with the answer of the world as it is then. When
  it ends with an error and \<open>handleContextMenuClick\<close> awaits it, the \<open>catch\<close> of that
  handler shows the error (lines 114 to 120). A scan that has ended does nothing more.
\<close>

definition scanPage_continue :: "world \<Rightarrow> background \<Rightarrow> scan \<Rightarrow> phase \<times> background" where
  "scanPage_continue w st sc =
     (case scan_phase sc of
        AwaitSettings \<Rightarrow> scanPage_settings w st sc
      | AwaitPage \<Rightarrow> scanPage_page w st sc
      | AwaitFetch pageData n model \<Rightarrow>
          (case analyzeWithGemini_resume w st pageData n model of
             (Finished (Inr result), st4) \<Rightarrow>
               (Finished (Inr result), scanPage_result w st4 sc result)
           | other \<Rightarrow> other)
      | Finished r \<Rightarrow> (Finished r, st))"

definition scanPage_resume :: "world \<Rightarrow> background \<Rightarrow> scan \<Rightarrow> scan \<times> background" where
  "scanPage_resume w st sc =
     (case scan_phase sc of
        Finished r \<Rightarrow> (sc, st)
      | _ \<Rightarrow>
          let (ph, st') = scanPage_continue w st sc
          in (sc\<lparr>scan_phase := ph\<rparr>,
              case ph of
                Finished (Inl error) \<Rightarrow>
                  if from_menu sc
                  then showNotification (scan_tabId sc) (''Scan failed: '' @ message w error) st'
                  else st'
              | _ \<Rightarrow> st'))"

text \<open>What \<open>scanPage\<close> does with the outcome of \<open>analyzeWithGemini\<close> (lines 196 to 223),
  as a function of that outcome.\<close>

definition scan_outcome :: "world \<Rightarrow> scan \<Rightarrow> phase \<times> background \<Rightarrow> scan \<times> background" where
  "scan_outcome w sc x =
     (case fst x of
        Finished (Inr result) \<Rightarrow> (sc\<lparr>scan_phase := fst x\<rparr>, scanPage_result w (snd x) sc result)
      | _ \<Rightarrow> (sc\<lparr>scan_phase := fst x\<rparr>, snd x))"

subsection \<open>The event handlers\<close>

text \<open>
  The worker: the fields of \<open>PhishGuardBackground\<close> and the scans started so far, in the
  order in which they started.
\<close>

record worker =
  self :: background
  scans :: "scan list"

definition handleTabActivated :: "background \<Rightarrow> nat \<Rightarrow> background" where
  "handleTabActivated st tabId =
     (case scannedTabs st tabId of
        Some result \<Rightarrow> updateBadge tabId result st
      | None \<Rightarrow> clearBadge tabId st)"

text \<open>\<open>changeInfo.url\<close> is given as an optional string: \<open>None\<close> when the update did not
  change the URL.\<close>

definition handleTabUpdated :: "background \<Rightarrow> nat \<Rightarrow> string option \<Rightarrow> background" where
  "handleTabUpdated st tabId changeInfo_url =
     (if changeInfo_url \<noteq> None \<and> changeInfo_url \<noteq> Some []
      then clearBadge tabId (st\<lparr>scannedTabs := (scannedTabs st)(tabId := None)\<rparr>)
      else st)"

text \<open>
  The \<open>changes\<close> that \<open>handleStorageChange\<close> reads: for each of the four keys, \<open>None\<close> when
  the key did not change, and its new value otherwise (for the API key, \<open>Some None\<close> when
  the key was removed). A change that removes one of the other three keys leaves
  \<open>undefined\<close> in a field and is not among the events below.
\<close>

record storage_changes =
  changes_geminiApiKey :: "string option option"
  changes_safeThreshold :: "int option"
  changes_cautionThreshold :: "int option"
  changes_selectedModel :: "string option"

definition handleStorageChange :: "background \<Rightarrow> storage_changes \<Rightarrow> string \<Rightarrow> background" where
  "handleStorageChange st changes namespace =
     (if namespace = ''sync'' then
        let st1 = (case changes_geminiApiKey changes of
                     None \<Rightarrow> st
                   | Some newValue \<Rightarrow> st\<lparr>geminiApiKey := newValue\<rparr>);
            st2 = (case changes_safeThreshold changes of
                     None \<Rightarrow> st1
                   | Some newValue \<Rightarrow> st1\<lparr>safeThreshold := newValue\<rparr>);
            st3 = (case changes_cautionThreshold changes of
                     None \<Rightarrow> st2
                   | Some newValue \<Rightarrow> st2\<lparr>cautionThreshold := newValue\<rparr>);
            st4 = (case changes_selectedModel changes of
                     None \<Rightarrow> st3
                   | Some newValue \<Rightarrow>
                       st3\<lparr>selectedModel := newValue,
                           currentModel := map_of GEMINI_CONFIG_models newValue\<rparr>)
        in st4
      else st)"

text \<open>The storage area after such a change, which the event reports.\<close>

definition changed_storage :: "storage_changes \<Rightarrow> sync_storage \<Rightarrow> sync_storage" where
  "changed_storage changes area =
     (let a1 = (case changes_geminiApiKey changes of
                  None \<Rightarrow> area
                | Some newValue \<Rightarrow> area\<lparr>sync_geminiApiKey := newValue\<rparr>);
          a2 = (case changes_safeThreshold changes of
                  None \<Rightarrow> a1
                | Some newValue \<Rightarrow> a1\<lparr>sync_safeThreshold := Some newValue\<rparr>);
          a3 = (case changes_cautionThreshold changes of
                  None \<Rightarrow> a2
                | Some newValue \<Rightarrow> a2\<lparr>sync_cautionThreshold := Some newValue\<rparr>);
          a4 = (case changes_selectedModel changes of
                  None \<Rightarrow> a3
                | Some newValue \<Rightarrow> a3\<lparr>sync_selectedModel := Some newValue\<rparr>)
      in a4)"

text \<open>
  \<open>handleContextMenuClick\<close> up to its \<open>await\<close> of \<open>scanPage\<close> (lines 95 to 113), and the
  \<open>scanPage\<close> case of \<open>handleMessage\<close> (line 129), whose \<open>scanSource\<close> is
  \<open>request.scanSource || 'popup'\<close>: both start a scan, which waits for the storage area
  at once.
\<close>

definition scanPage_call :: "worker \<Rightarrow> nat \<Rightarrow> js_value \<Rightarrow> string \<Rightarrow> bool \<Rightarrow> worker" where
  "scanPage_call ws tabId u scanSource menu =
     ws\<lparr>scans := scans ws @
           [\<lparr>scan_tabId = tabId, scan_url = u, scan_scanSource = scanSource,
             from_menu = menu, scan_phase = AwaitSettings\<rparr>]\<rparr>"

definition handleContextMenuClick :: "worker \<Rightarrow> string \<Rightarrow> nat \<Rightarrow> js_value \<Rightarrow> worker" where
  "handleContextMenuClick ws menuItemId tabId tab_url =
     (if menuItemId = ''scan-page-phishing'' then
        (if geminiApiKey (self ws) = None \<or> geminiApiKey (self ws) = Some [] then
           ws\<lparr>self := showNotification tabId
                 ''Please configure your Gemini API key in the extension popup first'' (self ws)\<rparr>
         else if \<not> isScannableUrl tab_url then
           ws\<lparr>self := showNotification tabId ''Cannot scan this type of page'' (self ws)\<rparr>
         else scanPage_call ws tabId tab_url ''contextMenu'' True)
      else ws)"

text \<open>
  The events the worker reacts to: a tab update, a tab activation, a change of the
  storage area, a \<open>scanPage\<close> message, a click on the context menu, and the answer of
  the world that the scan with the given number waits for. The \<open>getPageContent\<close> message
  changes no field of the worker and is left out.
\<close>

datatype event =
    TabUpdated nat "string option"
  | TabActivated nat
  | StorageChanged storage_changes string
  | ScanPageMessage nat js_value string
  | ContextMenuClick string nat js_value
  | Continue nat world

fun step :: "worker \<Rightarrow> event \<Rightarrow> worker" where
  "step ws (TabUpdated tabId changeInfo_url) =
     ws\<lparr>self := handleTabUpdated (self ws) tabId changeInfo_url\<rparr>"
| "step ws (TabActivated tabId) = ws\<lparr>self := handleTabActivated (self ws) tabId\<rparr>"
| "step ws (StorageChanged changes namespace) =
     ws\<lparr>self :=
           handleStorageChange
             (if namespace = ''sync''
              then (self ws)\<lparr>sync := changed_storage changes (sync (self ws))\<rparr>
              else self ws)
             changes namespace\<rparr>"
| "step ws (ScanPageMessage tabId u scanSource) = scanPage_call ws tabId u scanSource False"
| "step ws (ContextMenuClick menuItemId tabId tab_url) =
     handleContextMenuClick ws menuItemId tabId tab_url"
| "step ws (Continue k w) =
     (if k < length (scans ws)
      then let (sc, st) = scanPage_resume w (self ws) (scans ws ! k)
           in ws\<lparr>self := st, scans := (scans ws)[k := sc]\<rparr>
      else ws)"

definition run :: "worker \<Rightarrow> event list \<Rightarrow> worker" where
  "run ws evs = foldl step ws evs"

text \<open>
  The event takes a scan of the tab, one with the given number or a later one, to the
  point where it stores its result (line 198); and some event of the list does, in the
  worker it meets.
\<close>

fun stores_result :: "nat \<Rightarrow> nat \<Rightarrow> worker \<Rightarrow> event \<Rightarrow> bool" where
  "stores_result first t ws (Continue k w) =
     (first \<le> k \<and> k < length (scans ws) \<and> scan_tabId (scans ws ! k) = t \<and>
      (case scan_phase (scans ws ! k) of
         AwaitFetch pageData n model \<Rightarrow>
           (case fst (analyzeWithGemini_resume w (self ws) pageData n model) of
              Finished (Inr result) \<Rightarrow> True
            | _ \<Rightarrow> False)
       | _ \<Rightarrow> False))"
| "stores_result first t ws ev = False"

fun scan_stored :: "nat \<Rightarrow> nat \<Rightarrow> worker \<Rightarrow> event list \<Rightarrow> bool" where
  "scan_stored first t ws [] = False"
| "scan_stored first t ws (ev # evs) =
     (stores_result first t ws ev \<or> scan_stored first t (step ws ev) evs)"

text \<open>A scan has ended; and a scan of the tab is in flight: it has started and has not
  ended.\<close>

definition has_ended :: "scan \<Rightarrow> bool" where
  "has_ended sc = (case scan_phase sc of Finished r \<Rightarrow> True | _ \<Rightarrow> False)"

definition in_flight :: "nat \<Rightarrow> worker \<Rightarrow> bool" where
  "in_flight t ws = list_ex (\<lambda>sc. scan_tabId sc = t \<and> \<not> has_ended sc) (scans ws)"

section \<open>The popup (\<open>popup.js\<close>, in \<open>src/unnamed/part_001\<close>)\<close>

text \<open>
  The thresholds of \<open>PopupManager\<close>, the two range inputs of the settings dialog
  (\<open>min\<close> 70 and \<open>max\<close> 95 for the safe threshold, 30 and 70 for the caution
  threshold) and the two thresholds as stored in \<open>chrome.storage.sync\<close>.
\<close>

record popup =
  popup_safeThreshold :: int
  popup_cautionThreshold :: int
  safe_slider :: int
  caution_slider :: int
  stored_safeThreshold :: "int option"
  stored_cautionThreshold :: "int option"

text \<open>The verdict that \<open>displayResults\<close> shows (lines 196 to 209).\<close>

definition displayResults_verdict :: "popup \<Rightarrow> scan_result \<Rightarrow> verdict" where
  "displayResults_verdict p result =
     (let score = legitimacyScore result
      in if js_ge score (Num (of_int (popup_safeThreshold p))) then Legitimate
         else if js_ge score (Num (of_int (popup_cautionThreshold p))) then Uncertain
         else Phishing)"










text \<open>The popup as its constructor leaves it, with the dialog's sliders at the thresholds.\<close>

definition popup_defaults :: popup where
  "popup_defaults =
     \<lparr>popup_safeThreshold = 80, popup_cautionThreshold = 50,
      safe_slider = 80, caution_slider = 50,
      stored_safeThreshold = None, stored_cautionThreshold = None\<rparr>"

section \<open>Configurations and examples\<close>

text \<open>
  A threshold configuration within the ranges of the two sliders of the settings
  dialog, with the safe threshold above the caution threshold.
\<close>

definition valid_ThresholdConfig :: "int \<Rightarrow> int \<Rightarrow> bool" where
  "valid_ThresholdConfig safe caution =
     (70 \<le> safe \<and> safe \<le> 95 \<and> 30 \<le> caution \<and> caution \<le> 70 \<and> caution < safe)"

text \<open>A storage area that holds an API key and nothing else.\<close>

definition example_sync :: sync_storage where
  "example_sync =
     \<lparr>sync_geminiApiKey = Some ''AIzaSyExampleKey'', sync_safeThreshold = None,
      sync_cautionThreshold = None, sync_selectedModel = None, sync_scanHistory = None\<rparr>"

text \<open>The worker as its constructor leaves it, over a given storage area.\<close>

definition new_background :: "sync_storage \<Rightarrow> background" where
  "new_background storage =
     \<lparr>geminiApiKey = None, safeThreshold = 80, cautionThreshold = 50,
      scannedTabs = Map.empty, selectedModel = GEMINI_CONFIG_defaultModel,
      currentModel = None, sync = storage, badges = (\<lambda>tabId. NoBadge),
      fetched = [], notices = [], extracted = [], sent = []\<rparr>"

definition example_world :: world where
  "example_world =
     \<lparr>Date_now = 1700000000000,
      coerce = (\<lambda>v. Some NaN),
      engine_message = (\<lambda>e. ''runtime error''),
      sync_available = True,
      page_content = (\<lambda>tabId. Inr \<lparr>fullUrl = ''https://example.com/'', isDomainSuspicious = False\<rparr>),
      remote = (\<lambda>n model. Generated (Some (Str ''no json here''))),
      URL_hostname = (\<lambda>u. Some ''example.com'')\<rparr>"

text \<open>The worker after \<open>scanPage\<close> has loaded the settings of \<open>example_sync\<close>
  (lemma \<open>example_background_loaded\<close>).\<close>

definition example_background :: background where
  "example_background =
     (new_background example_sync)
       \<lparr>geminiApiKey := Some ''AIzaSyExampleKey'',
        currentModel := Some ''gemini-2.5-flash-lite''\<rparr>"

text \<open>The words that \<open>fallbackAnalysis\<close> looks for.\<close>

definition risk_words :: "string \<Rightarrow> bool" where
  "risk_words t =
     (str_includes (toLowerCase t) ''phishing'' \<or>
      str_includes (toLowerCase t) ''suspicious'' \<or>
      str_includes (toLowerCase t) ''malicious'')"

definition trust_words :: "string \<Rightarrow> bool" where
  "trust_words t =
     (str_includes (toLowerCase t) ''legitimate'' \<or>
      str_includes (toLowerCase t) ''safe'' \<or>
      str_includes (toLowerCase t) ''trusted'')"

text \<open>
  What the specification says of these words, stated without the scan of the code: two
  characters are the same letter when they are equal or the first is the capital
  letter (code 65 to 90) of the second, which stands 32 codes above it; and a text
  mentions a word when the word stands somewhere in it, letter for letter in that
  sense. \<open>small_letters\<close> holds of a word of small letters (codes 97 to 122).
\<close>

definition same_letter :: "char \<Rightarrow> char \<Rightarrow> bool" where
  "same_letter c d =
     (c = d \<or>
      (65 \<le> (of_char c :: nat) \<and> (of_char c :: nat) \<le> 90 \<and> (of_char d :: nat) = of_char c + 32))"

definition mentions :: "string \<Rightarrow> string \<Rightarrow> bool" where
  "mentions t word = (\<exists>a m b. t = a @ m @ b \<and> list_all2 same_letter m word)"

definition small_letters :: "string \<Rightarrow> bool" where
  "small_letters word = list_all (\<lambda>d. 97 \<le> (of_char d :: nat) \<and> (of_char d :: nat) \<le> 122) word"

text \<open>The reply holds no JSON object that the parser can read: the cleaned reply has no
  pair of braces, or \<open>JSON.parse\<close> throws on the text between them.\<close>

definition no_parseable_json :: "string \<Rightarrow> bool" where
  "no_parseable_json t =
     (case match_braces (trim (strip_fences t)) of
        None \<Rightarrow> True
      | Some jsonMatch \<Rightarrow> JSON_parse jsonMatch = None)"

text \<open>\<open>Number.isInteger\<close>.\<close>

definition is_integer :: "jsnum \<Rightarrow> bool" where
  "is_integer n = (case n of Num q \<Rightarrow> q = of_int \<lfloor>q\<rfloor> | _ \<Rightarrow> False)"

text \<open>The object \<open>{legitimacyScore: 72, reasoning: ["a","b"]}\<close>.\<close>

definition round_trip_object :: json where
  "round_trip_object =
     JObj [(''legitimacyScore'', JNum 72), (''reasoning'', JArr [JStr ''a'', JStr ''b''])]"

text \<open>A result of an earlier scan, and the worker with that result cached for tab 1.\<close>

definition example_result :: scan_result where
  "example_result =
     \<lparr>legitimacyScore = Num 90,
      reasoning = [JStr ''Known domain''],
      url = ''https://old.example/'',
      timestamp = 1690000000000,
      fallback = False,
      modelUsed = Some ''gemini-2.5-flash-lite'',
      modelDisplayName = Some ''Gemini 2.5 Flash Lite''\<rparr>"

definition example_cached :: background where
  "example_cached = example_background\<lparr>scannedTabs := [1 \<mapsto> example_result]\<rparr>"

text \<open>
  A worker with that result cached and no scan started; and the same worker once a
  scan of tab 1 has read the page at \<open>https://example.com/\<close> and waits for the answer
  of the model.
\<close>

definition example_worker :: worker where
  "example_worker = \<lparr>self = example_cached, scans = []\<rparr>"

definition scan_in_flight :: worker where
  "scan_in_flight =
     run \<lparr>self = example_background, scans = []\<rparr>
       [ScanPageMessage 1 (Str ''https://example.com/'') ''popup'',
        Continue 0 example_world,
        Continue 0 example_world]"

text \<open>The model identifiers of \<open>GEMINI_CONFIG.fallbackOrder\<close>, in that order: the tier chain.\<close>

definition tier_chain :: "string list" where
  "tier_chain = List.map_filter (map_of GEMINI_CONFIG_models) GEMINI_CONFIG_fallbackOrder"

text \<open>A worker whose selected model is the first tier, and a remote side whose first
  request fails in transport, whose second request returns no text and whose later
  requests return a reply.\<close>

definition example_pro :: background where
  "example_pro = example_background\<lparr>selectedModel := ''pro'', currentModel := Some ''gemini-2.5-pro''\<rparr>"

definition failing_world :: world where
  "failing_world =
     example_world
       \<lparr>remote := (\<lambda>n model. if n = 0 then FetchFailed TypeError
                              else if n = 1 then Generated None
                              else Generated (Some (Str ''no json here'')))\<rparr>"

definition example_page :: page_data where
  "example_page = \<lparr>fullUrl = ''https://example.com/'', isDomainSuspicious = False\<rparr>"

text \<open>
  The worker as the request number \<open>j\<close> (from 0) of a call of \<open>analyzeWithGemini\<close> meets
  it, when the call started in \<open>st\<close> at tier \<open>i\<close> of the chain and no other handler ran:
  \<open>j\<close> requests sent, to the tiers from \<open>i\<close> on, and the tier after them current.
\<close>

definition at_request :: "background \<Rightarrow> nat \<Rightarrow> nat \<Rightarrow> background" where
  "at_request st i j =
     st\<lparr>fetched := fetched st @ map Some (take j (drop i tier_chain)),
        currentModel := Some (tier_chain ! (i + j))\<rparr>"

text \<open>
  A worker whose selected model is the second tier, a worker whose storage area
  selects the first tier, a remote side that refuses every request, and two scans that
  overlap: the scan of tab 1 has asked the first tier and
  waits for the second when a scan of tab 2 starts and loads the settings; then the
  scan of tab 1 goes on.
\<close>

definition example_flash :: background where
  "example_flash =
     example_background\<lparr>selectedModel := ''flash'', currentModel := Some ''gemini-2.5-flash''\<rparr>"

definition pro_worker :: worker where
  "pro_worker =
     \<lparr>self = new_background (example_sync\<lparr>sync_selectedModel := Some ''pro''\<rparr>), scans = []\<rparr>"

definition refusing_world :: world where
  "refusing_world = example_world\<lparr>remote := (\<lambda>n model. NotOk ''overloaded'')\<rparr>"

definition overlapping_scans :: "event list" where
  "overlapping_scans =
     [ScanPageMessage 1 (Str ''https://example.com/'') ''popup'',
      Continue 0 refusing_world,
      Continue 0 refusing_world,
      Continue 0 refusing_world,
      ScanPageMessage 2 (Str ''https://example.org/'') ''popup'',
      Continue 1 refusing_world,
      Continue 0 refusing_world]"

section \<open>Properties of the JSON parser\<close>

text \<open>
  Every step of the parser consumes input, so the bound that \<open>JSON_parse\<close> passes is
  never reached: \<open>None\<close> from \<open>JSON_parse\<close> always stands for a syntax error.
\<close>

lemma length_skip_ws: "length (skip_ws s) \<le> length s"
  by (simp add: skip_ws_def length_dropWhile_le)

lemma skip_ws_Cons_length: "skip_ws s = d # ds \<Longrightarrow> length ds < length s"
  using length_skip_ws [of s] by simp

lemma parse_chars_length: "parse_chars acc s = Some (str, r) \<Longrightarrow> length r < length s"
proof (induction acc s rule: parse_chars.induct)
  case (1 acc)
  then show ?case by simp
next
  case (2 acc c cs)
  show ?case
  proof (cases "c = CHR 0x22")
    case True
    with "2.prems" show ?thesis by simp
  next
    case nq: False
    show ?thesis
    proof (cases "c = CHR 0x5C")
      case True
      show ?thesis
      proof (cases cs)
        case Nil
        with "2.prems" nq True show ?thesis by simp
      next
        case (Cons e r')
        show ?thesis
        proof (cases "e = CHR ''u''")
          case eu: True
          show ?thesis
          proof (cases "hex4 (take 4 r')")
            case None
            with "2.prems" nq True Cons eu show ?thesis by simp
          next
            case (Some n)
            with "2.prems" nq True Cons eu
            have "parse_chars (rev (code_unit n) @ acc) (drop 4 r') = Some (str, r)" by simp
            from "2.IH"(1) [OF nq True Cons eu Some this]
            show ?thesis using Cons by simp
          qed
        next
          case ne: False
          show ?thesis
          proof (cases "unescape e")
            case None
            with "2.prems" nq True Cons ne show ?thesis by simp
          next
            case (Some x)
            with "2.prems" nq True Cons ne
            have "parse_chars (x # acc) r' = Some (str, r)" by simp
            from "2.IH"(2) [OF nq True Cons ne Some this]
            show ?thesis using Cons by simp
          qed
        qed
      qed
    next
      case nb: False
      show ?thesis
      proof (cases "(of_char c :: nat) < 32")
        case True
        with "2.prems" nq nb show ?thesis by simp
      next
        case False
        with "2.prems" nq nb have "parse_chars (c # acc) cs = Some (str, r)" by simp
        from "2.IH"(3) [OF nq nb False this] show ?thesis by simp
      qed
    qed
  qed
qed

lemma parse_int_part_length:
  "parse_int_part s = Some (ip, r) \<Longrightarrow> length r < length s"
proof (cases s)
  case Nil
  assume "parse_int_part s = Some (ip, r)"
  with Nil show ?thesis by (simp add: parse_int_part_def)
next
  case (Cons c cs)
  assume a: "parse_int_part s = Some (ip, r)"
  show ?thesis
  proof (cases "c = CHR ''0''")
    case True
    with a Cons show ?thesis by (simp add: parse_int_part_def)
  next
    case False
    with a Cons have d: "is_digit c" and r: "r = dropWhile is_digit s"
      by (auto simp: parse_int_part_def split: if_splits)
    from d Cons have "dropWhile is_digit s = dropWhile is_digit cs" by simp
    with r Cons show ?thesis using length_dropWhile_le [of is_digit cs] by simp
  qed
qed

lemma parse_frac_part_length:
  "parse_frac_part s = Some (fp, r) \<Longrightarrow> length r \<le> length s"
  by (cases s) (auto simp: parse_frac_part_def le_SucI length_dropWhile_le split: if_splits)

lemma parse_exp_part_length:
  "parse_exp_part s = Some (e, r) \<Longrightarrow> length r \<le> length s"
proof (cases s)
  case Nil
  assume "parse_exp_part s = Some (e, r)"
  with Nil show ?thesis by (simp add: parse_exp_part_def)
next
  case (Cons c cs)
  assume a: "parse_exp_part s = Some (e, r)"
  have t: "length (dropWhile is_digit (tl cs)) \<le> length cs"
    using length_dropWhile_le [of is_digit "tl cs"] by simp
  have u: "length (dropWhile is_digit cs) \<le> length cs"
    by (rule length_dropWhile_le)
  from a Cons t u show ?thesis
    by (auto simp: parse_exp_part_def Let_def split: if_splits)
qed

lemma parse_number_length:
  assumes "parse_number s = Some (q, r)"
  shows "length r < length s"
proof -
  let ?s1 = "if (case s of [] \<Rightarrow> False | c # cs \<Rightarrow> c = CHR ''-'') then tl s else s"
  have s1: "length ?s1 \<le> length s" by simp
  from assms obtain ip s2 fp s3 e where
    a: "parse_int_part ?s1 = Some (ip, s2)" and
    b: "parse_frac_part s2 = Some (fp, s3)" and
    c: "parse_exp_part s3 = Some (e, r)"
    by (auto simp: parse_number_def Let_def split: option.splits)
  from parse_int_part_length [OF a] parse_frac_part_length [OF b] parse_exp_part_length [OF c] s1
  show ?thesis by linarith
qed

lemma parse_consumes:
  "parse_value n s = Parsed v r \<Longrightarrow> length r < length s"
  "parse_elems n acc s = Parsed v r \<Longrightarrow> length r < length s"
  "parse_members n macc s = Parsed v r \<Longrightarrow> length r < length s"
proof (induction n s and n acc s and n macc s arbitrary: v r and v r and v r
    rule: parse_value_parse_elems_parse_members.induct)
  case (1 s)
  then show ?case by simp
next
  case (2 n s)
  show ?case
  proof (cases s)
    case Nil
    with "2.prems" show ?thesis by simp
  next
    case (Cons c cs)
    consider (obj) "c = CHR ''{''" | (arr) "c \<noteq> CHR ''{''" "c = CHR ''[''"
      | (str) "c \<noteq> CHR ''{''" "c \<noteq> CHR ''[''" "c = CHR 0x22"
      | (other) "c \<noteq> CHR ''{''" "c \<noteq> CHR ''[''" "c \<noteq> CHR 0x22"
      by blast
    then show ?thesis
    proof cases
      case obj
      show ?thesis
      proof (cases "skip_ws cs")
        case Nil
        with "2.prems" Cons obj show ?thesis by simp
      next
        case sk: (Cons d ds)
        show ?thesis
        proof (cases "d = CHR ''}''")
          case True
          with "2.prems" Cons obj sk have "r = ds" by simp
          with skip_ws_Cons_length [OF sk] Cons show ?thesis by simp
        next
          case False
          with "2.prems" Cons obj sk have "parse_members n [] (d # ds) = Parsed v r" by simp
          from "2.IH"(1) [OF Cons obj sk False this] skip_ws_Cons_length [OF sk] Cons
          show ?thesis by simp
        qed
      qed
    next
      case arr
      show ?thesis
      proof (cases "skip_ws cs")
        case Nil
        with "2.prems" Cons arr show ?thesis by simp
      next
        case sk: (Cons d ds)
        show ?thesis
        proof (cases "d = CHR '']''")
          case True
          with "2.prems" Cons arr sk have "r = ds" by simp
          with skip_ws_Cons_length [OF sk] Cons show ?thesis by simp
        next
          case False
          with "2.prems" Cons arr sk have "parse_elems n [] (d # ds) = Parsed v r" by simp
          from "2.IH"(2) [OF Cons arr(1) arr(2) sk False this] skip_ws_Cons_length [OF sk] Cons
          show ?thesis by simp
        qed
      qed
    next
      case str
      with "2.prems" Cons obtain st where "parse_chars [] cs = Some (st, r)"
        by (auto split: option.splits)
      from parse_chars_length [OF this] Cons show ?thesis by simp
    next
      case other
      show ?thesis
      proof (cases "take 4 s = ''true'' \<or> take 5 s = ''false'' \<or> take 4 s = ''null''")
        case True
        with "2.prems" Cons other have "r = drop 4 s \<or> r = drop 5 s"
          by (auto split: if_splits)
        with Cons show ?thesis by auto
      next
        case False
        with "2.prems" Cons other obtain q where "parse_number s = Some (q, r)"
          by (auto split: option.splits)
        from parse_number_length [OF this] show ?thesis .
      qed
    qed
  qed
next
  case (3 acc s)
  then show ?case by simp
next
  case (4 n acc s)
  from "4.prems" obtain v1 r1 where pv: "parse_value n s = Parsed v1 r1"
    by (auto split: presult.splits)
  from "4.IH"(1) [OF pv] have l1: "length r1 < length s" .
  show ?case
  proof (cases "skip_ws r1")
    case Nil
    with "4.prems" pv show ?thesis by simp
  next
    case sk: (Cons d ds)
    have l2: "length ds < length r1" by (rule skip_ws_Cons_length [OF sk])
    show ?thesis
    proof (cases "d = CHR '',''")
      case True
      with "4.prems" pv sk have "parse_elems n (v1 # acc) (skip_ws ds) = Parsed v r" by simp
      from "4.IH"(2) [OF pv sk True this] length_skip_ws [of ds] l1 l2
      show ?thesis by simp
    next
      case False
      with "4.prems" pv sk have "r = ds" by (auto split: if_splits)
      with l1 l2 show ?thesis by simp
    qed
  qed
next
  case (5 macc s)
  then show ?case by simp
next
  case (6 n macc s)
  from "6.prems" obtain cs where s: "s = CHR 0x22 # cs"
    by (cases s) (auto split: if_splits)
  from "6.prems" s obtain key r1 where pc: "parse_chars [] cs = Some (key, r1)"
    by (auto split: option.splits)
  from "6.prems" s pc obtain r2 where sk1: "skip_ws r1 = CHR '':'' # r2"
    by (cases "skip_ws r1") (auto split: if_splits)
  from "6.prems" s pc sk1 obtain v1 r3 where pv: "parse_value n (skip_ws r2) = Parsed v1 r3"
    by (auto split: presult.splits)
  have q: "CHR 0x22 = CHR 0x22" "CHR '':'' = CHR '':''" by simp_all
  have l1: "length r1 < length cs" by (rule parse_chars_length [OF pc])
  have l2: "length r2 < length r1" by (rule skip_ws_Cons_length [OF sk1])
  have l3: "length r3 < length (skip_ws r2)"
    using "6.IH"(1) [OF s _ pc refl sk1 _ pv] by simp
  show ?case
  proof (cases "skip_ws r3")
    case Nil
    with "6.prems" s pc sk1 pv show ?thesis by simp
  next
    case sk: (Cons d ds)
    have l4: "length ds < length r3" by (rule skip_ws_Cons_length [OF sk])
    show ?thesis
    proof (cases "d = CHR '',''")
      case True
      with "6.prems" s pc sk1 pv sk
      have "parse_members n ((key, v1) # macc) (skip_ws ds) = Parsed v r" by simp
      from "6.IH"(2) [OF s _ pc refl sk1 _ pv sk True this] length_skip_ws [of ds]
        length_skip_ws [of r2] l1 l2 l3 l4 s
      show ?thesis by simp
    next
      case False
      with "6.prems" s pc sk1 pv sk have "r = ds" by (auto split: if_splits)
      with length_skip_ws [of r2] l1 l2 l3 l4 s show ?thesis by simp
    qed
  qed
qed

lemma parse_fuel:
  "2 * length s < n \<Longrightarrow> parse_value n s \<noteq> OutOfFuel"
  "2 * length s + 1 < n \<Longrightarrow> parse_elems n acc s \<noteq> OutOfFuel"
  "2 * length s + 1 < n \<Longrightarrow> parse_members n macc s \<noteq> OutOfFuel"
proof (induction n s and n acc s and n macc s
    rule: parse_value_parse_elems_parse_members.induct)
  case (1 s)
  then show ?case by simp
next
  case (2 n s)
  show ?case
  proof (cases s)
    case Nil
    then show ?thesis by simp
  next
    case (Cons c cs)
    consider (obj) "c = CHR ''{''" | (arr) "c \<noteq> CHR ''{''" "c = CHR ''[''"
      | (other) "c \<noteq> CHR ''{''" "c \<noteq> CHR ''[''"
      by blast
    then show ?thesis
    proof cases
      case obj
      show ?thesis
      proof (cases "skip_ws cs")
        case Nil
        with Cons obj show ?thesis by simp
      next
        case sk: (Cons d ds)
        show ?thesis
        proof (cases "d = CHR ''}''")
          case True
          with Cons obj sk show ?thesis by simp
        next
          case False
          from length_skip_ws [of cs] sk "2.prems" Cons
          have "2 * length (d # ds) + 1 < n" by simp
          from "2.IH"(1) [OF Cons obj sk False this] Cons obj sk False
          show ?thesis by simp
        qed
      qed
    next
      case arr
      show ?thesis
      proof (cases "skip_ws cs")
        case Nil
        with Cons arr show ?thesis by simp
      next
        case sk: (Cons d ds)
        show ?thesis
        proof (cases "d = CHR '']''")
          case True
          with Cons arr sk show ?thesis by simp
        next
          case False
          from length_skip_ws [of cs] sk "2.prems" Cons
          have "2 * length (d # ds) + 1 < n" by simp
          from "2.IH"(2) [OF Cons arr(1) arr(2) sk False this] Cons arr sk False
          show ?thesis by simp
        qed
      qed
    next
      case other
      with Cons show ?thesis by (simp split: option.splits)
    qed
  qed
next
  case (3 acc s)
  then show ?case by simp
next
  case (4 n acc s)
  from "4.prems" have "2 * length s < n" by simp
  from "4.IH"(1) [OF this] have nf: "parse_value n s \<noteq> OutOfFuel" .
  show ?case
  proof (cases "parse_value n s")
    case OutOfFuel
    with nf show ?thesis by simp
  next
    case Invalid
    then show ?thesis by simp
  next
    case pv: (Parsed v1 r1)
    from parse_consumes(1) [OF pv] have l1: "length r1 < length s" .
    show ?thesis
    proof (cases "skip_ws r1")
      case Nil
      with pv show ?thesis by simp
    next
      case sk: (Cons d ds)
      have l2: "length ds < length r1" by (rule skip_ws_Cons_length [OF sk])
      show ?thesis
      proof (cases "d = CHR '',''")
        case True
        from length_skip_ws [of ds] l1 l2 "4.prems"
        have "2 * length (skip_ws ds) + 1 < n" by simp
        from "4.IH"(2) [OF pv sk True this] pv sk True show ?thesis by simp
      next
        case False
        with pv sk show ?thesis by simp
      qed
    qed
  qed
next
  case (5 macc s)
  then show ?case by simp
next
  case (6 n macc s)
  show ?case
  proof (cases s)
    case Nil
    then show ?thesis by simp
  next
    case (Cons q cs)
    show ?thesis
    proof (cases "q = CHR 0x22")
      case False
      with Cons show ?thesis by simp
    next
      case q: True
      show ?thesis
      proof (cases "parse_chars [] cs")
        case None
        with Cons q show ?thesis by simp
      next
        case (Some kr)
        obtain key r1 where kr: "kr = (key, r1)" by (cases kr)
        with Some have pc: "parse_chars [] cs = Some (key, r1)" by simp
        have l1: "length r1 < length cs" by (rule parse_chars_length [OF pc])
        show ?thesis
        proof (cases "skip_ws r1")
          case Nil
          with Cons q pc show ?thesis by simp
        next
          case sk1: (Cons colon r2)
          have l2: "length r2 < length r1" by (rule skip_ws_Cons_length [OF sk1])
          show ?thesis
          proof (cases "colon = CHR '':''")
            case False
            with Cons q pc sk1 show ?thesis by simp
          next
            case col: True
            from length_skip_ws [of r2] l1 l2 Cons "6.prems"
            have "2 * length (skip_ws r2) < n" by simp
            from "6.IH"(1) [OF Cons _ Some kr [symmetric] sk1 _ this] q col
            have nf: "parse_value n (skip_ws r2) \<noteq> OutOfFuel" by simp
            show ?thesis
            proof (cases "parse_value n (skip_ws r2)")
              case OutOfFuel
              with nf show ?thesis by simp
            next
              case Invalid
              with Cons q pc sk1 col show ?thesis by simp
            next
              case pv: (Parsed v1 r3)
              from parse_consumes(1) [OF pv] have l3: "length r3 < length (skip_ws r2)" .
              show ?thesis
              proof (cases "skip_ws r3")
                case Nil
                with Cons q pc sk1 col pv show ?thesis by simp
              next
                case sk: (Cons d ds)
                have l4: "length ds < length r3" by (rule skip_ws_Cons_length [OF sk])
                show ?thesis
                proof (cases "d = CHR '',''")
                  case True
                  from length_skip_ws [of ds] length_skip_ws [of r2] l1 l2 l3 l4 Cons "6.prems"
                  have "2 * length (skip_ws ds) + 1 < n" by simp
                  from "6.IH"(2) [OF Cons _ Some kr [symmetric] sk1 _ pv sk True this] q col
                  have "parse_members n ((key, v1) # macc) (skip_ws ds) \<noteq> OutOfFuel" by simp
                  with Cons q pc sk1 col pv sk True show ?thesis by simp
                next
                  case False
                  with Cons q pc sk1 col pv sk show ?thesis by simp
                qed
              qed
            qed
          qed
        qed
      qed
    qed
  qed
qed

lemma JSON_parse_fuel: "parse_value (2 * length s + 2) (skip_ws s) \<noteq> OutOfFuel"
proof (rule parse_fuel(1))
  from length_skip_ws [of s] show "2 * length (skip_ws s) < 2 * length s + 2" by simp
qed

section \<open>Properties of the pattern match\<close>

lemma dropWhile_dropWhile_weaker:
  assumes "\<And>x. P x \<Longrightarrow> Q x"
  shows "dropWhile Q (dropWhile P xs) = dropWhile Q xs"
  using assms by (induction xs) auto

lemma trim_end_Cons:
  "rev (dropWhile P (rev (x # xs))) =
     (if rev (dropWhile P (rev xs)) = [] \<and> P x then [] else x # rev (dropWhile P (rev xs)))"
proof (cases "\<forall>y \<in> set (rev xs). P y")
  case True
  then have e: "dropWhile P (rev xs) = []" by simp
  have "dropWhile P (rev xs @ [x]) = dropWhile P [x]"
  proof (rule dropWhile_append2)
    fix y
    assume "y \<in> set (rev xs)"
    with True show "P y" by blast
  qed
  with e show ?thesis by simp
next
  case False
  then obtain y where "y \<in> set (rev xs)" "\<not> P y" by blast
  then have "dropWhile P (rev xs @ [x]) = dropWhile P (rev xs) @ [x]"
    by (rule dropWhile_append1)
  moreover from False have "dropWhile P (rev xs) \<noteq> []" by simp
  ultimately show ?thesis by simp
qed

lemma first_brace_trim_end:
  assumes "\<And>x. P x \<Longrightarrow> x \<noteq> b"
  shows "dropWhile (\<lambda>c. c \<noteq> b) (rev (dropWhile P (rev s))) =
         rev (dropWhile P (rev (dropWhile (\<lambda>c. c \<noteq> b) s)))"
proof (induction s)
  case Nil
  show ?case by simp
next
  case (Cons x xs)
  show ?case
  proof (cases "x = b")
    case True
    with assms have "\<not> P x" by blast
    then have g: "rev (dropWhile P (rev (x # xs))) = x # rev (dropWhile P (rev xs))"
      by (simp only: trim_end_Cons simp_thms if_False)
    from True have f: "dropWhile (\<lambda>c. c \<noteq> b) (x # xs) = x # xs"
      by simp
    from True show ?thesis
      unfolding f g by simp
  next
    case False
    then have r: "dropWhile (\<lambda>c. c \<noteq> b) (x # xs) = dropWhile (\<lambda>c. c \<noteq> b) xs"
      by simp
    show ?thesis
    proof (cases "rev (dropWhile P (rev xs)) = [] \<and> P x")
      case True
      then have e: "rev (dropWhile P (rev xs)) = []" by blast
      from Cons.IH have ih0: "rev (dropWhile P (rev (dropWhile (\<lambda>c. c \<noteq> b) xs))) = []"
        unfolding e by simp
      from True have g0: "rev (dropWhile P (rev (x # xs))) = []"
        by (simp only: trim_end_Cons simp_thms if_True)
      show ?thesis
        unfolding r g0 ih0 by simp
    next
      case nt: False
      then have g1: "rev (dropWhile P (rev (x # xs))) = x # rev (dropWhile P (rev xs))"
        by (simp only: trim_end_Cons simp_thms if_False)
      from False have "dropWhile (\<lambda>c. c \<noteq> b) (x # rev (dropWhile P (rev xs))) =
          dropWhile (\<lambda>c. c \<noteq> b) (rev (dropWhile P (rev xs)))"
        by simp
      then show ?thesis
        unfolding r g1 Cons.IH by (rule trans) (rule refl)
    qed
  qed
qed

text \<open>
  Trimming does not change what the pattern matches, since no brace is white space:
  which characters \<open>trim\<close> counts as white space has no effect on the parser.
\<close>

lemma match_braces_trim: "match_braces (trim s) = match_braces s"
proof -
  let ?f = "dropWhile (\<lambda>c. c \<noteq> CHR ''{'')"
  have sp_open: "is_space x \<Longrightarrow> x \<noteq> CHR ''{''" for x
    by (auto simp: is_space_def)
  have sp_close: "is_space x \<Longrightarrow> x \<noteq> CHR ''}''" for x
    by (auto simp: is_space_def)
  have a: "?f (rev (dropWhile is_space (rev t))) = rev (dropWhile is_space (rev (?f t)))" for t
    by (rule first_brace_trim_end) (rule sp_open)
  have b: "?f (dropWhile is_space s) = ?f s"
    by (rule dropWhile_dropWhile_weaker) (rule sp_open)
  have front: "?f (trim s) = rev (dropWhile is_space (rev (?f s)))"
    unfolding trim_def a b by (rule refl)
  show ?thesis
  proof (cases "?f s")
    case Nil
    have t0: "?f (trim s) = []"
      unfolding front Nil by simp
    show ?thesis
      unfolding match_braces_def t0 Nil by simp
  next
    case (Cons b r)
    then have "b = CHR ''{''"
      using hd_dropWhile [of "\<lambda>c. c \<noteq> CHR ''{''" s] by auto
    then have nb: "\<not> is_space b"
      using sp_open by blast
    from nb have g: "rev (dropWhile is_space (rev (b # r))) = b # rev (dropWhile is_space (rev r))"
      by (simp only: trim_end_Cons simp_thms if_False)
    have f2: "?f (trim s) = b # rev (dropWhile is_space (rev r))"
      unfolding front Cons g by (rule refl)
    have "dropWhile (\<lambda>c. c \<noteq> CHR ''}'') (dropWhile is_space (rev r)) =
          dropWhile (\<lambda>c. c \<noteq> CHR ''}'') (rev r)"
      by (rule dropWhile_dropWhile_weaker) (rule sp_close)
    then have tail_eq: "rev (dropWhile (\<lambda>c. c \<noteq> CHR ''}'') (rev (rev (dropWhile is_space (rev r))))) =
                rev (dropWhile (\<lambda>c. c \<noteq> CHR ''}'') (rev r))"
      by simp
    show ?thesis
      unfolding match_braces_def f2 Cons list.case tail_eq by (rule refl)
  qed
qed

section \<open>Verdict banding\<close>

text \<open>
  Claim C1. For every integer score in [0,100] and every valid threshold
  configuration, the verdict is Legitimate exactly when the score is at least the safe
  threshold, Uncertain exactly when it is at least the caution threshold and below the
  safe threshold, and Phishing exactly when it is below the caution threshold. The
  three conditions exclude each other and cover every score, so every score has
  exactly one band. The worker's history and the popup's display compute the same
  verdict.
\<close>

theorem verdict_banding_partition:
  assumes cfg: "valid_ThresholdConfig safe caution"
    and s: "0 \<le> s" "s \<le> 100"
    and bg: "safeThreshold st = safe" "cautionThreshold st = caution"
    and pop: "popup_safeThreshold p = safe" "popup_cautionThreshold p = caution"
    and score: "legitimacyScore result = Num (of_int s)"
  shows "(saveToHistory_verdict st result = Legitimate \<longleftrightarrow> safe \<le> s) \<and>
         (saveToHistory_verdict st result = Uncertain \<longleftrightarrow> caution \<le> s \<and> s < safe) \<and>
         (saveToHistory_verdict st result = Phishing \<longleftrightarrow> s < caution) \<and>
         displayResults_verdict p result = saveToHistory_verdict st result"
proof -
  from cfg have lt: "caution < safe"
    by (simp add: valid_ThresholdConfig_def)
  have bgv: "saveToHistory_verdict st result =
      (if safe \<le> s then Legitimate else if caution \<le> s then Uncertain else Phishing)"
    using bg score by (simp add: saveToHistory_verdict_def)
  have popv: "displayResults_verdict p result =
      (if safe \<le> s then Legitimate else if caution \<le> s then Uncertain else Phishing)"
    using pop score by (simp add: displayResults_verdict_def)
  from lt show ?thesis
    unfolding bgv popv by auto
qed

theorem verdict_banding_partition_witness:
  "valid_ThresholdConfig 80 50 \<and>
   saveToHistory_verdict (new_background example_sync)
     \<lparr>legitimacyScore = Num 20, reasoning = [], url = ''https://example.com/'', timestamp = 0,
      fallback = False, modelUsed = None, modelDisplayName = None\<rparr> = Phishing \<and>
   displayResults_verdict popup_defaults
     \<lparr>legitimacyScore = Num 20, reasoning = [], url = ''https://example.com/'', timestamp = 0,
      fallback = False, modelUsed = None, modelDisplayName = None\<rparr> = Phishing"
proof -
  have cfg: "valid_ThresholdConfig 80 50"
    by (simp add: valid_ThresholdConfig_def)
  have sc: "legitimacyScore
      \<lparr>legitimacyScore = Num 20, reasoning = [], url = ''https://example.com/'', timestamp = 0,
       fallback = False, modelUsed = None, modelDisplayName = None\<rparr> = Num (of_int 20)"
    by simp
  from verdict_banding_partition [OF cfg _ _ _ _ _ _ sc, of "new_background example_sync" popup_defaults]
  show ?thesis
    using cfg by (simp add: new_background_def popup_defaults_def)
qed

section \<open>The response parser and the fallback classifier\<close>

lemma fallbackAnalysis_Str:
  "fallbackAnalysis w st u (Str t) =
     Inr \<lparr>legitimacyScore = Num (if risk_words t then 25 else if trust_words t then 65 else 50),
          reasoning =
            [JStr (if risk_words t then ''Phishing indicators detected in content analysis''
                   else if trust_words t then ''Content appears legitimate based on analysis''
                   else ''Automated analysis based on response patterns'')],
          url = u,
          timestamp = Date_now w,
          fallback = True,
          modelUsed = currentModel st,
          modelDisplayName = getModelDisplayName (currentModel st)\<rparr>"
  by (simp add: fallbackAnalysis_def risk_words_def trust_words_def Let_def)

lemma parseGeminiResponse_try_cases:
  "parseGeminiResponse_try w st (Str t) u =
     (case match_braces (trim (strip_fences t)) of
        None \<Rightarrow> fallbackAnalysis w st u (Str t)
      | Some jsonMatch \<Rightarrow>
          (case JSON_parse jsonMatch of
             None \<Rightarrow> Inl SyntaxError
           | Some parsed \<Rightarrow>
               (case ToNumber (coerce w) (or_default (get_prop parsed ''legitimacyScore'') (JNum 50)) of
                  None \<Rightarrow> Inl TypeError
                | Some n \<Rightarrow>
                    Inr \<lparr>legitimacyScore = Math_min (Math_max n (Num 0)) (Num 100),
                          reasoning =
                            (case get_prop parsed ''reasoning'' of
                               Some (JArr xs) \<Rightarrow> xs
                             | _ \<Rightarrow> [JStr ''Analysis completed'']),
                          url = u,
                          timestamp = Date_now w,
                          fallback = False,
                          modelUsed = currentModel st,
                          modelDisplayName = getModelDisplayName (currentModel st)\<rparr>)))"
  by (simp add: parseGeminiResponse_try_def Let_def)

lemma parse_falls_back:
  assumes "no_parseable_json t"
  shows "parseGeminiResponse w st (Str t) u = fallbackAnalysis w st u (Str t)"
proof (cases "match_braces (trim (strip_fences t))")
  case None
  then show ?thesis
    by (simp add: parseGeminiResponse_def parseGeminiResponse_try_cases fallbackAnalysis_Str)
next
  case (Some m)
  with assms have "JSON_parse m = None"
    by (simp add: no_parseable_json_def)
  with Some show ?thesis
    by (simp add: parseGeminiResponse_def parseGeminiResponse_try_cases)
qed

lemma no_json_here_cleaned: "match_braces (trim (strip_fences ''no json here'')) = None"
  by code_simp

lemma no_json_here_words: "\<not> risk_words ''no json here'' \<and> \<not> trust_words ''no json here''"
  by code_simp

lemma capital_codes: "map of_char ''ABCDEFGHIJKLMNOPQRSTUVWXYZ'' = [65 ..< (91 :: nat)]"
  by (simp add: upt_rec)

lemma capital_iff:
  "c \<in> set ''ABCDEFGHIJKLMNOPQRSTUVWXYZ'' \<longleftrightarrow> 65 \<le> (of_char c :: nat) \<and> (of_char c :: nat) \<le> 90"
proof -
  have "c \<in> set ''ABCDEFGHIJKLMNOPQRSTUVWXYZ'' \<longleftrightarrow>
          (of_char c :: nat) \<in> of_char ` set ''ABCDEFGHIJKLMNOPQRSTUVWXYZ''"
    by (simp only: inj_image_mem_iff [OF inj_of_char])
  also have "of_char ` set ''ABCDEFGHIJKLMNOPQRSTUVWXYZ'' = set [65 ..< (91 :: nat)]"
    unfolding capital_codes [symmetric] by (simp only: set_map)
  also have "(of_char c :: nat) \<in> set [65 ..< 91] \<longleftrightarrow> 65 \<le> (of_char c :: nat) \<and> (of_char c :: nat) \<le> 90"
    unfolding set_upt atLeastLessThan_iff by arith
  finally show ?thesis .
qed

lemma toLowerCase_char_capital:
  assumes "c \<in> set ''ABCDEFGHIJKLMNOPQRSTUVWXYZ''"
  shows "(of_char (toLowerCase_char c) :: nat) = of_char c + 32"
  using assms by (auto simp: toLowerCase_char_def)

lemma toLowerCase_char_other:
  assumes "c \<notin> set ''ABCDEFGHIJKLMNOPQRSTUVWXYZ''"
  shows "toLowerCase_char c = c"
proof -
  have "map_of (zip ''ABCDEFGHIJKLMNOPQRSTUVWXYZ'' ''abcdefghijklmnopqrstuvwxyz'') c = None"
  proof -
    have "length ''ABCDEFGHIJKLMNOPQRSTUVWXYZ'' = length ''abcdefghijklmnopqrstuvwxyz''"
      by simp
    from map_of_zip_is_None [OF this, of c] assms show ?thesis
      by blast
  qed
  then show ?thesis
    by (simp add: toLowerCase_char_def)
qed

lemma toLowerCase_char_same_letter:
  assumes "97 \<le> (of_char d :: nat)"
  shows "(toLowerCase_char c = d) = same_letter c d"
proof (cases "c \<in> set ''ABCDEFGHIJKLMNOPQRSTUVWXYZ''")
  case True
  then have cap: "65 \<le> (of_char c :: nat)" "(of_char c :: nat) \<le> 90"
    using capital_iff [of c] by blast+
  with assms have ne: "c \<noteq> d"
    by auto
  have "(toLowerCase_char c = d) = ((of_char (toLowerCase_char c) :: nat) = of_char d)"
    by (simp only: of_char_eq_iff)
  also have "\<dots> = ((of_char d :: nat) = of_char c + 32)"
    unfolding toLowerCase_char_capital [OF True] by auto
  finally show ?thesis
    using cap ne by (simp add: same_letter_def)
next
  case False
  then have "\<not> (65 \<le> (of_char c :: nat) \<and> (of_char c :: nat) \<le> 90)"
    using capital_iff [of c] by blast
  with toLowerCase_char_other [OF False] show ?thesis
    by (auto simp: same_letter_def)
qed

lemma toLowerCase_eq_iff:
  assumes "small_letters word"
  shows "(toLowerCase m = word) = list_all2 same_letter m word"
  using assms
proof (induction m arbitrary: word)
  case Nil
  then show ?case by (auto simp: toLowerCase_def)
next
  case (Cons c cs)
  show ?case
  proof (cases word)
    case Nil
    then show ?thesis by (simp add: toLowerCase_def)
  next
    case (Cons d ds)
    with Cons.prems have d: "97 \<le> (of_char d :: nat)" and ds: "small_letters ds"
      by (simp_all add: small_letters_def)
    from Cons.IH [OF ds] have "(map toLowerCase_char cs = ds) = list_all2 same_letter cs ds"
      by (simp add: toLowerCase_def)
    with toLowerCase_char_same_letter [OF d, of c] Cons show ?thesis
      by (simp add: toLowerCase_def)
  qed
qed

lemma startsWith_iff: "startsWith s p \<longleftrightarrow> (\<exists>b. s = p @ b)"
proof
  assume "startsWith s p"
  then have "s = p @ drop (length p) s"
    unfolding startsWith_def by (metis append_take_drop_id)
  then show "\<exists>b. s = p @ b" ..
next
  assume "\<exists>b. s = p @ b"
  then show "startsWith s p"
    by (auto simp: startsWith_def)
qed

lemma str_includes_iff: "str_includes s p \<longleftrightarrow> (\<exists>a b. s = a @ p @ b)"
proof (induction s)
  case Nil
  then show ?case by auto
next
  case (Cons c cs)
  show ?case
  proof
    assume "str_includes (c # cs) p"
    then consider "startsWith (c # cs) p" | "str_includes cs p"
      by auto
    then show "\<exists>a b. c # cs = a @ p @ b"
    proof cases
      case 1
      then obtain b where "c # cs = p @ b"
        unfolding startsWith_iff ..
      then have "c # cs = [] @ p @ b" by simp
      then show ?thesis by blast
    next
      case 2
      with Cons.IH obtain a b where "cs = a @ p @ b" by blast
      then have "c # cs = (c # a) @ p @ b" by simp
      then show ?thesis by blast
    qed
  next
    assume "\<exists>a b. c # cs = a @ p @ b"
    then obtain a b where ab: "c # cs = a @ p @ b" by blast
    show "str_includes (c # cs) p"
    proof (cases a)
      case Nil
      with ab have "startsWith (c # cs) p"
        unfolding startsWith_iff by auto
      then show ?thesis by simp
    next
      case (Cons x xs)
      with ab have "cs = xs @ p @ b" by simp
      with Cons.IH have "str_includes cs p" by blast
      then show ?thesis by simp
    qed
  qed
qed

lemma map_append_split:
  assumes "map f t = a' @ m' @ b'"
  shows "\<exists>a m b. t = a @ m @ b \<and> map f m = m'"
proof -
  from assms obtain a r where t: "t = a @ r" and r: "m' @ b' = map f r"
    by (auto simp only: map_eq_append_conv)
  from r [symmetric] obtain m b where "r = m @ b" and "m' = map f m"
    by (auto simp only: map_eq_append_conv)
  with t show ?thesis
    by blast
qed

lemma includes_lower_iff:
  assumes "small_letters word"
  shows "str_includes (toLowerCase t) word = mentions t word"
proof
  assume "str_includes (toLowerCase t) word"
  then obtain a' b' where "toLowerCase t = a' @ word @ b'"
    unfolding str_includes_iff by blast
  then have "map toLowerCase_char t = a' @ word @ b'"
    unfolding toLowerCase_def .
  from map_append_split [OF this] obtain a m b
    where t: "t = a @ m @ b" and "map toLowerCase_char m = word"
    by blast
  then have "toLowerCase m = word"
    unfolding toLowerCase_def by simp
  then have "list_all2 same_letter m word"
    unfolding toLowerCase_eq_iff [OF assms] .
  with t show "mentions t word"
    unfolding mentions_def by blast
next
  assume "mentions t word"
  then obtain a m b where t: "t = a @ m @ b" and "list_all2 same_letter m word"
    unfolding mentions_def by blast
  then have "toLowerCase m = word"
    unfolding toLowerCase_eq_iff [OF assms] by simp
  then have "toLowerCase t = toLowerCase a @ word @ toLowerCase b"
    unfolding t toLowerCase_def by simp
  then show "str_includes (toLowerCase t) word"
    unfolding str_includes_iff by blast
qed

lemma small_letters_words:
  "small_letters ''phishing''" "small_letters ''suspicious''" "small_letters ''malicious''"
  "small_letters ''legitimate''" "small_letters ''safe''" "small_letters ''trusted''"
  by (simp_all add: small_letters_def)

lemma risk_words_mentions:
  "risk_words t =
     (mentions t ''phishing'' \<or> mentions t ''suspicious'' \<or> mentions t ''malicious'')"
  unfolding risk_words_def
    includes_lower_iff [OF small_letters_words(1)]
    includes_lower_iff [OF small_letters_words(2)]
    includes_lower_iff [OF small_letters_words(3)] ..

lemma trust_words_mentions:
  "trust_words t =
     (mentions t ''legitimate'' \<or> mentions t ''safe'' \<or> mentions t ''trusted'')"
  unfolding trust_words_def
    includes_lower_iff [OF small_letters_words(4)]
    includes_lower_iff [OF small_letters_words(5)]
    includes_lower_iff [OF small_letters_words(6)] ..

text \<open>
  Claim C3. For every reply that holds no parseable JSON object, the parser returns
  the result of the fallback classifier: its \<open>fallback\<close> flag is set, and its score is 25
  when the reply mentions "phishing", "suspicious" or "malicious", otherwise 65 when it
  mentions "legitimate", "safe" or "trusted", and 50 when it mentions none of the six
  words. The risk words are looked for first. A reply mentions a word when the word
  stands somewhere in it, each letter small or capital (\<open>mentions\<close>, which is stated
  without the scan of the code).
\<close>

theorem fallback_classifier_score:
  assumes "no_parseable_json t"
  shows "\<exists>r. parseGeminiResponse w st (Str t) u = Inr r \<and>
             fallback r = True \<and>
             legitimacyScore r =
               Num (if mentions t ''phishing'' \<or> mentions t ''suspicious'' \<or>
                       mentions t ''malicious'' then 25
                    else if mentions t ''legitimate'' \<or> mentions t ''safe'' \<or>
                            mentions t ''trusted'' then 65
                    else 50)"
  using parse_falls_back [OF assms, of w st u]
  unfolding risk_words_mentions [symmetric] trust_words_mentions [symmetric]
  by (simp add: fallbackAnalysis_Str)

lemma capital_risk_cleaned: "match_braces (trim (strip_fences ''This is PHISHING'')) = None"
  by code_simp

lemma capital_risk_words: "risk_words ''This is PHISHING''"
  by code_simp

lemma mixed_trust_cleaned: "match_braces (trim (strip_fences ''Looks Safe to me'')) = None"
  by code_simp

lemma mixed_trust_words: "\<not> risk_words ''Looks Safe to me'' \<and> trust_words ''Looks Safe to me''"
  by code_simp

lemma both_groups_cleaned:
  "match_braces (trim (strip_fences ''A trusted site, yet Suspicious'')) = None"
  by code_simp

lemma both_groups_words:
  "risk_words ''A trusted site, yet Suspicious'' \<and> trust_words ''A trusted site, yet Suspicious''"
  by code_simp

text \<open>
  Four replies without a JSON object: a risk word in capital letters gives 25, a trust
  word with a capital letter gives 65, a reply with a word of each group gives 25, and
  a reply with none of the words gives 50.
\<close>

theorem fallback_classifier_score_witness:
  "no_parseable_json ''This is PHISHING'' \<and>
   (\<exists>r. parseGeminiResponse example_world example_background (Str ''This is PHISHING'')
           ''https://example.com/'' = Inr r \<and>
        fallback r = True \<and> legitimacyScore r = Num 25) \<and>
   no_parseable_json ''Looks Safe to me'' \<and>
   (\<exists>r. parseGeminiResponse example_world example_background (Str ''Looks Safe to me'')
           ''https://example.com/'' = Inr r \<and>
        fallback r = True \<and> legitimacyScore r = Num 65) \<and>
   no_parseable_json ''A trusted site, yet Suspicious'' \<and>
   (\<exists>r. parseGeminiResponse example_world example_background
           (Str ''A trusted site, yet Suspicious'') ''https://example.com/'' = Inr r \<and>
        fallback r = True \<and> legitimacyScore r = Num 25) \<and>
   no_parseable_json ''no json here'' \<and>
   (\<exists>r. parseGeminiResponse example_world example_background (Str ''no json here'')
           ''https://example.com/'' = Inr r \<and>
        fallback r = True \<and> legitimacyScore r = Num 50)"
proof -
  have h1: "no_parseable_json ''This is PHISHING''"
    unfolding no_parseable_json_def capital_risk_cleaned by simp
  have h2: "no_parseable_json ''Looks Safe to me''"
    unfolding no_parseable_json_def mixed_trust_cleaned by simp
  have h3: "no_parseable_json ''A trusted site, yet Suspicious''"
    unfolding no_parseable_json_def both_groups_cleaned by simp
  have h4: "no_parseable_json ''no json here''"
    unfolding no_parseable_json_def no_json_here_cleaned by simp
  have s1: "(if risk_words ''This is PHISHING'' then 25
             else if trust_words ''This is PHISHING'' then 65 else 50) = (25 :: rat)"
    using capital_risk_words by simp
  have s2: "(if risk_words ''Looks Safe to me'' then 25
             else if trust_words ''Looks Safe to me'' then 65 else 50) = (65 :: rat)"
    using mixed_trust_words by simp
  have s3: "(if risk_words ''A trusted site, yet Suspicious'' then 25
             else if trust_words ''A trusted site, yet Suspicious'' then 65 else 50) = (25 :: rat)"
    using both_groups_words by simp
  have s4: "(if risk_words ''no json here'' then 25
             else if trust_words ''no json here'' then 65 else 50) = (50 :: rat)"
    using no_json_here_words by simp
  from fallback_classifier_score [OF h1, of example_world example_background "''https://example.com/''"]
  have r1: "\<exists>r. parseGeminiResponse example_world example_background (Str ''This is PHISHING'')
           ''https://example.com/'' = Inr r \<and>
        fallback r = True \<and> legitimacyScore r = Num 25"
    unfolding risk_words_mentions [symmetric] trust_words_mentions [symmetric] s1 by this
  from fallback_classifier_score [OF h2, of example_world example_background "''https://example.com/''"]
  have r2: "\<exists>r. parseGeminiResponse example_world example_background (Str ''Looks Safe to me'')
           ''https://example.com/'' = Inr r \<and>
        fallback r = True \<and> legitimacyScore r = Num 65"
    unfolding risk_words_mentions [symmetric] trust_words_mentions [symmetric] s2 by this
  from fallback_classifier_score [OF h3, of example_world example_background "''https://example.com/''"]
  have r3: "\<exists>r. parseGeminiResponse example_world example_background
           (Str ''A trusted site, yet Suspicious'') ''https://example.com/'' = Inr r \<and>
        fallback r = True \<and> legitimacyScore r = Num 25"
    unfolding risk_words_mentions [symmetric] trust_words_mentions [symmetric] s3 by this
  from fallback_classifier_score [OF h4, of example_world example_background "''https://example.com/''"]
  have r4: "\<exists>r. parseGeminiResponse example_world example_background (Str ''no json here'')
           ''https://example.com/'' = Inr r \<and>
        fallback r = True \<and> legitimacyScore r = Num 50"
    unfolding risk_words_mentions [symmetric] trust_words_mentions [symmetric] s4 by this
  from h1 r1 h2 r2 h3 r3 h4 r4 show ?thesis
    by (intro conjI)
qed

lemma fallbackAnalysis_returns:
  "\<exists>r. fallbackAnalysis w st u (Str t) = Inr r \<and> fallback r \<and>
       modelUsed r = currentModel st \<and>
       modelDisplayName r = getModelDisplayName (currentModel st)"
  by (simp add: fallbackAnalysis_Str)

lemma parseGeminiResponse_try_model:
  "parseGeminiResponse_try w st (Str t) u = Inr r \<Longrightarrow>
     modelUsed r = currentModel st \<and>
     modelDisplayName r = getModelDisplayName (currentModel st)"
  by (auto simp: parseGeminiResponse_try_cases fallbackAnalysis_Str split: option.splits)

lemma parseGeminiResponse_returns:
  "\<exists>r. parseGeminiResponse w st (Str t) u = Inr r \<and>
       modelUsed r = currentModel st \<and>
       modelDisplayName r = getModelDisplayName (currentModel st)"
proof (cases "parseGeminiResponse_try w st (Str t) u")
  case (Inl e)
  then show ?thesis
    by (simp add: parseGeminiResponse_def fallbackAnalysis_Str)
next
  case (Inr r)
  with parseGeminiResponse_try_model [OF Inr] show ?thesis
    by (simp add: parseGeminiResponse_def)
qed

text \<open>
  Claim C8, as the code has it. Every result of the fallback classifier names the
  current model tier in \<open>modelUsed\<close> and \<open>modelDisplayName\<close>, as every result of the
  parser does: the field is not left out on the fallback path.
\<close>

theorem result_names_current_model:
  "(\<exists>r. fallbackAnalysis w st u (Str t) = Inr r \<and> fallback r \<and>
        modelUsed r = currentModel st \<and>
        modelDisplayName r = getModelDisplayName (currentModel st)) \<and>
   (\<exists>r. parseGeminiResponse w st (Str t) u = Inr r \<and>
        modelUsed r = currentModel st \<and>
        modelDisplayName r = getModelDisplayName (currentModel st))"
  using fallbackAnalysis_returns [of w st u t] parseGeminiResponse_returns [of w st t u]
  by (rule conjI)

lemma example_background_model: "currentModel example_background = Some ''gemini-2.5-flash-lite''"
  by (simp add: example_background_def)

lemma example_background_loaded:
  "(let st = loadSettings example_world (new_background example_sync)
    in st\<lparr>currentModel := map_of GEMINI_CONFIG_models (selectedModel st)\<rparr>) = example_background"
  by (simp add: example_background_def loadSettings_def example_world_def new_background_def
      example_sync_def str_or_def int_or_def GEMINI_CONFIG_defaultModel_def GEMINI_CONFIG_models_def)

lemma example_world_now: "Date_now example_world = 1700000000000"
  by (simp add: example_world_def)

lemma example_display_name:
  "getModelDisplayName (Some ''gemini-2.5-flash-lite'') = Some ''Gemini 2.5 Flash Lite''"
  by code_simp

text \<open>
  The reply "no json here", classified while the current model is
  \<open>gemini-2.5-flash-lite\<close>: the result of the fallback classifier names that model.
\<close>

theorem fallback_result_names_model_counterexample:
  "parseGeminiResponse example_world example_background (Str ''no json here'')
     ''https://example.com/'' =
   Inr \<lparr>legitimacyScore = Num 50,
        reasoning = [JStr ''Automated analysis based on response patterns''],
        url = ''https://example.com/'',
        timestamp = 1700000000000,
        fallback = True,
        modelUsed = Some ''gemini-2.5-flash-lite'',
        modelDisplayName = Some ''Gemini 2.5 Flash Lite''\<rparr>"
proof -
  have h: "no_parseable_json ''no json here''"
    unfolding no_parseable_json_def no_json_here_cleaned by simp
  have words: "risk_words ''no json here'' = False" "trust_words ''no json here'' = False"
    using no_json_here_words by simp_all
  show ?thesis
    unfolding parse_falls_back [OF h] fallbackAnalysis_Str words example_background_model
      example_world_now example_display_name
    by simp
qed

text \<open>
  Claim C9. For every reply string and source URL the parser returns a result and
  never throws. When the reply holds no parseable JSON object, or the body of the
  parser throws, the result is the one of the fallback classifier, with its
  \<open>fallback\<close> flag set.
\<close>

theorem parse_never_raises:
  "(\<exists>r. parseGeminiResponse w st (Str t) u = Inr r) \<and>
   (no_parseable_json t \<or> (\<exists>error. parseGeminiResponse_try w st (Str t) u = Inl error) \<longrightarrow>
      (\<exists>r. parseGeminiResponse w st (Str t) u = Inr r \<and>
           fallbackAnalysis w st u (Str t) = Inr r \<and> fallback r))"
proof (intro conjI impI)
  from parseGeminiResponse_returns [of w st t u]
  show "\<exists>r. parseGeminiResponse w st (Str t) u = Inr r" by blast
next
  assume a: "no_parseable_json t \<or> (\<exists>error. parseGeminiResponse_try w st (Str t) u = Inl error)"
  have "parseGeminiResponse w st (Str t) u = fallbackAnalysis w st u (Str t)"
  proof (rule disjE [OF a])
    assume "no_parseable_json t"
    then show ?thesis by (rule parse_falls_back)
  next
    assume "\<exists>error. parseGeminiResponse_try w st (Str t) u = Inl error"
    then show ?thesis by (auto simp: parseGeminiResponse_def)
  qed
  with fallbackAnalysis_returns [of w st u t]
  show "\<exists>r. parseGeminiResponse w st (Str t) u = Inr r \<and>
            fallbackAnalysis w st u (Str t) = Inr r \<and> fallback r"
    by auto
qed

lemma not_json_cleaned: "match_braces (trim (strip_fences ''{not json}'')) = Some ''{not json}''"
  by code_simp

lemma not_json_parse: "JSON_parse ''{not json}'' = None"
  by code_simp

theorem parse_never_raises_witness:
  "no_parseable_json ''{not json}'' \<and>
   (\<exists>r. parseGeminiResponse example_world example_background (Str ''{not json}'')
          ''https://example.com/'' = Inr r \<and> fallback r)"
proof -
  have h: "no_parseable_json ''{not json}''"
    unfolding no_parseable_json_def not_json_cleaned by (simp add: not_json_parse)
  from parse_never_raises [of example_world example_background "''{not json}''" "''https://example.com/''"] h
  show ?thesis by blast
qed

section \<open>Parsing a structured reply\<close>

lemma round_trip_serialized:
  \<open>JSON_stringify round_trip_object = Some ''{"legitimacyScore":72,"reasoning":["a","b"]}''\<close>
  by code_simp

lemma round_trip_cleaned:
  \<open>match_braces (trim (strip_fences ''{"legitimacyScore":72,"reasoning":["a","b"]}'')) =
     Some ''{"legitimacyScore":72,"reasoning":["a","b"]}''\<close>
  by code_simp

lemma round_trip_parsed:
  \<open>JSON_parse ''{"legitimacyScore":72,"reasoning":["a","b"]}'' = Some round_trip_object\<close>
  by code_simp

lemma round_trip_score:
  "or_default (get_prop round_trip_object ''legitimacyScore'') (JNum 50) = JNum 72"
  by code_simp

lemma round_trip_reasoning:
  "get_prop round_trip_object ''reasoning'' = Some (JArr [JStr ''a'', JStr ''b''])"
  by code_simp

lemma clamp_72: "Math_min (Math_max (Num 72) (Num 0)) (Num 100) = Num 72"
  by simp

text \<open>
  Claim C7. Parsing the serialization of the object
  \<open>{legitimacyScore: 72, reasoning: ["a","b"]}\<close> gives a result with score 72, the
  reasoning \<open>["a","b"]\<close> and no \<open>fallback\<close> flag.
\<close>

theorem parse_round_trip:
  "\<exists>text. JSON_stringify round_trip_object = Some text \<and>
     parseGeminiResponse w st (Str text) u =
       Inr \<lparr>legitimacyScore = Num 72,
            reasoning = [JStr ''a'', JStr ''b''],
            url = u,
            timestamp = Date_now w,
            fallback = False,
            modelUsed = currentModel st,
            modelDisplayName = getModelDisplayName (currentModel st)\<rparr>"
proof (intro exI conjI)
  show "JSON_stringify round_trip_object = Some (the (JSON_stringify round_trip_object))"
    unfolding round_trip_serialized by simp
  show "parseGeminiResponse w st (Str (the (JSON_stringify round_trip_object))) u =
       Inr \<lparr>legitimacyScore = Num 72,
            reasoning = [JStr ''a'', JStr ''b''],
            url = u,
            timestamp = Date_now w,
            fallback = False,
            modelUsed = currentModel st,
            modelDisplayName = getModelDisplayName (currentModel st)\<rparr>"
    unfolding round_trip_serialized option.sel parseGeminiResponse_def
      parseGeminiResponse_try_cases round_trip_cleaned option.case round_trip_parsed
      round_trip_score ToNumber.simps round_trip_reasoning json.case sum.case clamp_72
    by (rule refl)
qed

lemma structured_result:
  assumes m: "match_braces (trim (strip_fences t)) = Some jsonMatch"
    and p: "JSON_parse jsonMatch = Some parsed"
    and n: "ToNumber (coerce w) (or_default (get_prop parsed ''legitimacyScore'') (JNum 50)) = Some n"
  shows "parseGeminiResponse w st (Str t) u =
     Inr \<lparr>legitimacyScore = Math_min (Math_max n (Num 0)) (Num 100),
          reasoning =
            (case get_prop parsed ''reasoning'' of
               Some (JArr xs) \<Rightarrow> xs
             | _ \<Rightarrow> [JStr ''Analysis completed'']),
          url = u,
          timestamp = Date_now w,
          fallback = False,
          modelUsed = currentModel st,
          modelDisplayName = getModelDisplayName (currentModel st)\<rparr>"
  by (simp add: parseGeminiResponse_def parseGeminiResponse_try_cases m p n)

lemma clamp_range:
  "Math_min (Math_max (Num s) (Num 0)) (Num 100) = Num (min (max s 0) 100)"
  by simp

lemma clamp_integer:
  assumes "is_integer (Num s)"
  shows "is_integer (Num (min (max s 0) 100))"
proof -
  have z: "is_integer (Num 0)" and h: "is_integer (Num 100)"
    by (simp_all add: is_integer_def)
  have "min (max s 0) 100 = s \<or> min (max s 0) 100 = 0 \<or> min (max s 0) 100 = 100"
    by (simp add: min_def max_def)
  then show ?thesis
    using assms z h by auto
qed

lemma default_integer: "is_integer (Num 50)"
  by (simp add: is_integer_def)

text \<open>
  Claim C2, as the code has it. When the reply holds a JSON object whose
  \<open>legitimacyScore\<close> member is a number, the score of the result lies in [0,100] and
  is an integer whenever that number is one; for a number other than 0 it is that
  number clamped to [0,100], so that -5 gives 0 and 140 gives 100. When the member is
  absent, \<open>null\<close>, \<open>false\<close> or the empty string the score is 50. The number is not
  rounded to an integer.
\<close>

theorem legitimacyScore_clamped:
  assumes m: "match_braces (trim (strip_fences t)) = Some jsonMatch"
    and p: "JSON_parse jsonMatch = Some parsed"
  shows "\<exists>r. parseGeminiResponse w st (Str t) u = Inr r \<and>
     (\<forall>s. get_prop parsed ''legitimacyScore'' = Some (JNum s) \<longrightarrow>
          (s \<noteq> 0 \<longrightarrow> legitimacyScore r = Num (min (max s 0) 100)) \<and>
          js_ge (legitimacyScore r) (Num 0) \<and> js_ge (Num 100) (legitimacyScore r) \<and>
          (is_integer (Num s) \<longrightarrow> is_integer (legitimacyScore r))) \<and>
     (get_prop parsed ''legitimacyScore'' = Some (JNum (- 5)) \<longrightarrow> legitimacyScore r = Num 0) \<and>
     (get_prop parsed ''legitimacyScore'' = Some (JNum 140) \<longrightarrow> legitimacyScore r = Num 100) \<and>
     (get_prop parsed ''legitimacyScore'' \<in> {None, Some JNull, Some (JBool False), Some (JStr [])}
        \<longrightarrow> legitimacyScore r = Num 50)"
proof -
  let ?v = "or_default (get_prop parsed ''legitimacyScore'') (JNum 50)"
  have num: "?v = JNum (if s = 0 then 50 else s)"
    if "get_prop parsed ''legitimacyScore'' = Some (JNum s)" for s
    using that by (simp add: or_default_def)
  have dflt: "?v = JNum 50"
    if "get_prop parsed ''legitimacyScore'' \<in> {None, Some JNull, Some (JBool False), Some (JStr [])}"
    using that by (auto simp: or_default_def)
  show ?thesis
  proof (cases "ToNumber (coerce w) ?v")
    case None
    have nonum: "get_prop parsed ''legitimacyScore'' \<noteq> Some (JNum s)" for s
    proof
      assume "get_prop parsed ''legitimacyScore'' = Some (JNum s)"
      from num [OF this] None show False by simp
    qed
    have nodflt: "get_prop parsed ''legitimacyScore'' \<notin> {None, Some JNull, Some (JBool False), Some (JStr [])}"
    proof
      assume "get_prop parsed ''legitimacyScore'' \<in> {None, Some JNull, Some (JBool False), Some (JStr [])}"
      from dflt [OF this] None show False by simp
    qed
    from parseGeminiResponse_returns [of w st t u]
    obtain r where "parseGeminiResponse w st (Str t) u = Inr r" by blast
    with nonum nodflt show ?thesis by blast
  next
    case (Some n)
    let ?r = "\<lparr>legitimacyScore = Math_min (Math_max n (Num 0)) (Num 100),
          reasoning =
            (case get_prop parsed ''reasoning'' of
               Some (JArr xs) \<Rightarrow> xs
             | _ \<Rightarrow> [JStr ''Analysis completed'']),
          url = u,
          timestamp = Date_now w,
          fallback = False,
          modelUsed = currentModel st,
          modelDisplayName = getModelDisplayName (currentModel st)\<rparr>"
    have r: "parseGeminiResponse w st (Str t) u = Inr ?r"
      by (rule structured_result [OF m p Some])
    have sc: "legitimacyScore ?r = Math_min (Math_max n (Num 0)) (Num 100)"
      by simp
    have a: "legitimacyScore ?r = Num (if s = 0 then 50 else min (max s 0) 100) \<and>
          js_ge (legitimacyScore ?r) (Num 0) \<and> js_ge (Num 100) (legitimacyScore ?r) \<and>
          (is_integer (Num s) \<longrightarrow> is_integer (legitimacyScore ?r))"
      if g: "get_prop parsed ''legitimacyScore'' = Some (JNum s)" for s
    proof -
      from num [OF g] Some have n: "n = Num (if s = 0 then 50 else s)" by simp
      show ?thesis
      proof (cases "s = 0")
        case True
        with n show ?thesis unfolding sc by (simp add: default_integer)
      next
        case False
        with n have "Math_min (Math_max n (Num 0)) (Num 100) = Num (min (max s 0) 100)"
          by simp
        with False clamp_integer [of s] show ?thesis unfolding sc by simp
      qed
    qed
    have b: "legitimacyScore ?r = Num 50"
      if "get_prop parsed ''legitimacyScore'' \<in> {None, Some JNull, Some (JBool False), Some (JStr [])}"
    proof -
      from dflt [OF that] Some have "n = Num 50" by simp
      then show ?thesis unfolding sc by simp
    qed
    have c: "legitimacyScore ?r = Num 0" if "get_prop parsed ''legitimacyScore'' = Some (JNum (- 5))"
      using a [OF that] by simp
    have d: "legitimacyScore ?r = Num 100" if "get_prop parsed ''legitimacyScore'' = Some (JNum 140)"
      using a [OF that] by simp
    have a': "(s \<noteq> 0 \<longrightarrow> legitimacyScore ?r = Num (min (max s 0) 100)) \<and>
          js_ge (legitimacyScore ?r) (Num 0) \<and> js_ge (Num 100) (legitimacyScore ?r) \<and>
          (is_integer (Num s) \<longrightarrow> is_integer (legitimacyScore ?r))"
      if g: "get_prop parsed ''legitimacyScore'' = Some (JNum s)" for s
    proof (cases "s = 0")
      case True
      from a [OF g] have "js_ge (legitimacyScore ?r) (Num 0) \<and> js_ge (Num 100) (legitimacyScore ?r) \<and>
          (is_integer (Num s) \<longrightarrow> is_integer (legitimacyScore ?r))"
        by blast
      with True show ?thesis by blast
    next
      case False
      from a [OF g] have "legitimacyScore ?r = Num (if s = 0 then 50 else min (max s 0) 100)"
        and rest: "js_ge (legitimacyScore ?r) (Num 0) \<and> js_ge (Num 100) (legitimacyScore ?r) \<and>
          (is_integer (Num s) \<longrightarrow> is_integer (legitimacyScore ?r))"
        by blast+
      with False have "legitimacyScore ?r = Num (min (max s 0) 100)"
        by (simp only: if_False)
      with rest show ?thesis by blast
    qed
    from r a' b c d show ?thesis by blast
  qed
qed

lemma over_range_cleaned:
  \<open>match_braces (trim (strip_fences ''{"legitimacyScore":140}'')) = Some ''{"legitimacyScore":140}''\<close>
  by code_simp

lemma over_range_parsed:
  \<open>JSON_parse ''{"legitimacyScore":140}'' = Some (JObj [(''legitimacyScore'', JNum 140)])\<close>
  by code_simp

lemma over_range_prop:
  "get_prop (JObj [(''legitimacyScore'', JNum 140)]) ''legitimacyScore'' = Some (JNum 140)"
  by code_simp

theorem legitimacyScore_clamped_witness:
  \<open>match_braces (trim (strip_fences ''{"legitimacyScore":140}'')) = Some ''{"legitimacyScore":140}'' \<and>
   JSON_parse ''{"legitimacyScore":140}'' = Some (JObj [(''legitimacyScore'', JNum 140)]) \<and>
   (\<exists>r. parseGeminiResponse example_world example_background (Str ''{"legitimacyScore":140}'')
          ''https://example.com/'' = Inr r \<and> legitimacyScore r = Num 100)\<close>
proof -
  from legitimacyScore_clamped [OF over_range_cleaned over_range_parsed,
      of example_world example_background "''https://example.com/''"]
  have \<open>\<exists>r. parseGeminiResponse example_world example_background (Str ''{"legitimacyScore":140}'')
          ''https://example.com/'' = Inr r \<and> legitimacyScore r = Num 100\<close>
    unfolding over_range_prop by blast
  with over_range_cleaned over_range_parsed show ?thesis by blast
qed

lemma fraction_cleaned:
  \<open>match_braces (trim (strip_fences ''{"legitimacyScore":72.5}'')) = Some ''{"legitimacyScore":72.5}''\<close>
  by code_simp

lemma fraction_parsed:
  \<open>JSON_parse ''{"legitimacyScore":72.5}'' = Some (JObj [(''legitimacyScore'', JNum (145 / 2))])\<close>
  by code_simp

lemma fraction_prop:
  "or_default (get_prop (JObj [(''legitimacyScore'', JNum (145 / 2))]) ''legitimacyScore'') (JNum 50)
     = JNum (145 / 2)"
  by code_simp

lemma fraction_reasoning:
  "get_prop (JObj [(''legitimacyScore'', JNum (145 / 2))]) ''reasoning'' = None"
  by code_simp

lemma fraction_not_integer: "\<not> is_integer (Num (145 / 2))"
  by code_simp

text \<open>The score 72.5 stays 72.5: it is within the range and is not made an integer.\<close>

theorem score_not_coerced_to_integer_counterexample:
  \<open>parseGeminiResponse example_world example_background (Str ''{"legitimacyScore":72.5}'')
     ''https://example.com/'' =
   Inr \<lparr>legitimacyScore = Num (145 / 2),
        reasoning = [JStr ''Analysis completed''],
        url = ''https://example.com/'',
        timestamp = 1700000000000,
        fallback = False,
        modelUsed = Some ''gemini-2.5-flash-lite'',
        modelDisplayName = Some ''Gemini 2.5 Flash Lite''\<rparr> \<and>
   \<not> is_integer (Num (145 / 2))\<close>
proof -
  have n: "ToNumber (coerce example_world)
      (or_default (get_prop (JObj [(''legitimacyScore'', JNum (145 / 2))]) ''legitimacyScore'') (JNum 50))
      = Some (Num (145 / 2))"
    unfolding fraction_prop by simp
  have c: "Math_min (Math_max (Num (145 / 2)) (Num 0)) (Num 100) = Num (145 / 2)"
    by simp
  show ?thesis
    unfolding structured_result [OF fraction_cleaned fraction_parsed n] c fraction_reasoning
      example_background_model example_world_now example_display_name
    using fraction_not_integer by simp
qed

text \<open>
  A member that is a string is handed to \<open>Math.max\<close> as it is: where the runtime
  converts it to NaN, the score of the result is NaN and not 50.
\<close>

lemma nonnumeric_score_is_NaN:
  assumes m: "match_braces (trim (strip_fences t)) = Some jsonMatch"
    and p: "JSON_parse jsonMatch = Some parsed"
    and g: "get_prop parsed ''legitimacyScore'' = Some (JStr s)"
    and s: "s \<noteq> []"
    and c: "coerce w (JStr s) = Some NaN"
  shows "\<exists>r. parseGeminiResponse w st (Str t) u = Inr r \<and> legitimacyScore r = NaN"
proof -
  from g s c have "ToNumber (coerce w) (or_default (get_prop parsed ''legitimacyScore'') (JNum 50)) = Some NaN"
    by (simp add: or_default_def)
  from structured_result [OF m p this] show ?thesis
    by simp
qed

section \<open>The scan and the session store\<close>

declare analyzeWithGemini.simps [simp del]

text \<open>\<open>analyzeWithGemini\<close> changes the request log, the notices and the current model only.\<close>

lemma analyzeWithGemini_frame:
  "\<exists>f n c. snd (analyzeWithGemini w st pageData) = st\<lparr>fetched := f, notices := n, currentModel := c\<rparr>"
proof (induction w st pageData rule: analyzeWithGemini.induct)
  case (1 w st pageData)
  let ?st1 = "st\<lparr>fetched := fetched st @ [currentModel st]\<rparr>"
  show ?case
  proof (cases "request w st pageData")
    case (Inr result)
    then have "snd (analyzeWithGemini w st pageData) =
        st\<lparr>fetched := fetched st @ [currentModel st], notices := notices st, currentModel := currentModel st\<rparr>"
      by (subst analyzeWithGemini.simps) simp
    then show ?thesis by blast
  next
    case (Inl error)
    show ?thesis
    proof (cases "getNextFallbackModel ?st1")
      case None
      with Inl have "snd (analyzeWithGemini w st pageData) =
          st\<lparr>fetched := fetched st @ [currentModel st], notices := notices st,
             currentModel := map_of GEMINI_CONFIG_models (selectedModel st)\<rparr>"
        by (subst analyzeWithGemini.simps) simp
      then show ?thesis by blast
    next
      case (Some nextModel)
      let ?st2 = "?st1\<lparr>notices := notices ?st1 @
                      [(getModelDisplayName (currentModel ?st1), getModelDisplayName (Some nextModel))],
                    currentModel := Some nextModel\<rparr>"
      from "1.IH" [OF refl Inl Some]
      obtain f n c where "snd (analyzeWithGemini w ?st2 pageData) = ?st2\<lparr>fetched := f, notices := n, currentModel := c\<rparr>"
        by blast
      with Inl Some have "snd (analyzeWithGemini w st pageData) = st\<lparr>fetched := f, notices := n, currentModel := c\<rparr>"
        by (subst analyzeWithGemini.simps) simp
      then show ?thesis by blast
    qed
  qed
qed

lemma analyzeWithGemini_keeps:
  "scannedTabs (snd (analyzeWithGemini w st pageData)) = scannedTabs st"
  "extracted (snd (analyzeWithGemini w st pageData)) = extracted st"
proof -
  from analyzeWithGemini_frame [of w st pageData]
  obtain f n c where e: "snd (analyzeWithGemini w st pageData) = st\<lparr>fetched := f, notices := n, currentModel := c\<rparr>"
    by blast
  show "scannedTabs (snd (analyzeWithGemini w st pageData)) = scannedTabs st"
    unfolding e by simp
  show "extracted (snd (analyzeWithGemini w st pageData)) = extracted st"
    unfolding e by simp
qed

lemma loadSettings_keeps:
  "scannedTabs (loadSettings w st) = scannedTabs st"
  "extracted (loadSettings w st) = extracted st"
  "fetched (loadSettings w st) = fetched st"
  by (simp_all add: loadSettings_def Let_def)

lemma saveToHistory_scannedTabs: "scannedTabs (saveToHistory w st result) = scannedTabs st"
  by (simp add: saveToHistory_def Let_def split: option.splits)

lemma send_warning_scannedTabs: "scannedTabs (send_warning tabId result st) = scannedTabs st"
  by (simp add: send_warning_def Let_def)

lemma updateBadge_scannedTabs: "scannedTabs (updateBadge tabId result st) = scannedTabs st"
  by (simp add: updateBadge_def Let_def)

lemma clearBadge_scannedTabs: "scannedTabs (clearBadge tabId st) = scannedTabs st"
  by (simp add: clearBadge_def)

lemma showNotification_scannedTabs: "scannedTabs (showNotification tabId msg st) = scannedTabs st"
  by (simp add: showNotification_def)

text \<open>What \<open>scanPage\<close> does to the store: it adds the result when it returns one, and
  leaves the store as it was when it throws.\<close>

lemma scanPage_store:
  "scannedTabs (snd (scanPage w st tabId u scanSource)) =
     (case fst (scanPage w st tabId u scanSource) of
        Inl error \<Rightarrow> scannedTabs st
      | Inr result \<Rightarrow> (scannedTabs st)(tabId \<mapsto> result))"
proof -
  let ?st2 = "(loadSettings w st)\<lparr>currentModel := map_of GEMINI_CONFIG_models (selectedModel (loadSettings w st))\<rparr>"
  have k2: "scannedTabs ?st2 = scannedTabs st"
    by (simp add: loadSettings_keeps)
  show ?thesis
  proof (cases "geminiApiKey ?st2 = None \<or> geminiApiKey ?st2 = Some [] \<or> \<not> isScannableUrl u")
    case True
    then show ?thesis
      using k2 by (auto simp: scanPage_def Let_def)
  next
    case ok: False
    let ?st3 = "?st2\<lparr>extracted := extracted ?st2 @ [tabId]\<rparr>"
    show ?thesis
    proof (cases "page_content w tabId")
      case (Inl error)
      with ok k2 show ?thesis
        by (simp add: scanPage_def Let_def getPageContent_def)
    next
      case (Inr content)
      let ?pd = "content\<lparr>isDomainSuspicious :=
                     (case u of Str s \<Rightarrow> isSuspiciousDomain w s | NotString \<Rightarrow> False)\<rparr>"
      obtain res st4 where a: "analyzeWithGemini w ?st3 ?pd = (res, st4)"
        by (cases "analyzeWithGemini w ?st3 ?pd")
      from analyzeWithGemini_keeps(1) [of w ?st3 ?pd] a k2
      have k4: "scannedTabs st4 = scannedTabs st" by simp
      show ?thesis
      proof (cases res)
        case (Inl error)
        with ok Inr a k4 show ?thesis
          by (simp add: scanPage_def Let_def getPageContent_def loadSettings_keeps)
      next
        case r: (Inr result)
        with ok Inr a k4 show ?thesis
          by (simp add: scanPage_def Let_def getPageContent_def saveToHistory_scannedTabs
              send_warning_scannedTabs updateBadge_scannedTabs loadSettings_keeps)
      qed
    qed
  qed
qed

lemma handleStorageChange_scannedTabs:
  "scannedTabs (handleStorageChange st changes namespace) = scannedTabs st"
  by (simp add: handleStorageChange_def Let_def split: option.splits)

lemma handleTabActivated_scannedTabs: "scannedTabs (handleTabActivated st tabId) = scannedTabs st"
  by (simp add: handleTabActivated_def clearBadge_scannedTabs updateBadge_scannedTabs
      split: option.splits)

lemma scanPage_settings_scannedTabs: "scannedTabs (snd (scanPage_settings w st sc)) = scannedTabs st"
  by (simp add: scanPage_settings_def Let_def loadSettings_keeps)

lemma analyzeWithGemini_call_scannedTabs:
  "scannedTabs (snd (analyzeWithGemini_call st pageData)) = scannedTabs st"
  by (simp add: analyzeWithGemini_call_def)

lemma scanPage_page_scannedTabs: "scannedTabs (snd (scanPage_page w st sc)) = scannedTabs st"
  by (simp add: scanPage_page_def Let_def analyzeWithGemini_call_scannedTabs split: sum.splits)

lemma analyzeWithGemini_resume_scannedTabs:
  "scannedTabs (snd (analyzeWithGemini_resume w st pageData n model)) = scannedTabs st"
  by (simp add: analyzeWithGemini_resume_def analyzeWithGemini_call_scannedTabs
      split: sum.splits option.splits)

lemma scanPage_result_scannedTabs:
  "scannedTabs (scanPage_result w st sc result) = (scannedTabs st)(scan_tabId sc \<mapsto> result)"
  by (simp add: scanPage_result_def Let_def saveToHistory_scannedTabs send_warning_scannedTabs
      updateBadge_scannedTabs)

text \<open>The phase in which a step of a scan leaves it, and what the step does to the
  store: it adds a result when the scan ends with one, and nothing else.\<close>

lemma scanPage_continue_store:
  "scannedTabs (snd (scanPage_continue w st sc)) =
     (case scan_phase sc of
        AwaitFetch pageData n model \<Rightarrow>
          (case fst (analyzeWithGemini_resume w st pageData n model) of
             Finished (Inr result) \<Rightarrow> (scannedTabs st)(scan_tabId sc \<mapsto> result)
           | _ \<Rightarrow> scannedTabs st)
      | _ \<Rightarrow> scannedTabs st)"
proof (cases "scan_phase sc")
  case AwaitSettings
  then show ?thesis
    by (simp add: scanPage_continue_def scanPage_settings_scannedTabs)
next
  case AwaitPage
  then show ?thesis
    by (simp add: scanPage_continue_def scanPage_page_scannedTabs)
next
  case (AwaitFetch pageData n model)
  obtain ph st4 where r: "analyzeWithGemini_resume w st pageData n model = (ph, st4)"
    by (cases "analyzeWithGemini_resume w st pageData n model")
  from analyzeWithGemini_resume_scannedTabs [of w st pageData n model] r
  have k: "scannedTabs st4 = scannedTabs st"
    by simp
  from AwaitFetch r k show ?thesis
    by (simp add: scanPage_continue_def scanPage_result_scannedTabs split: phase.splits sum.splits)
next
  case (Finished r)
  then show ?thesis
    by (simp add: scanPage_continue_def)
qed

lemma scanPage_resume_store:
  "scannedTabs (snd (scanPage_resume w st sc)) = scannedTabs (snd (scanPage_continue w st sc))"
proof (cases "scan_phase sc")
  case (Finished r)
  then show ?thesis
    by (simp add: scanPage_resume_def scanPage_continue_def)
next
  case AwaitSettings
  then show ?thesis
    by (simp add: scanPage_resume_def Let_def showNotification_scannedTabs
        split: prod.splits phase.splits sum.splits)
next
  case AwaitPage
  then show ?thesis
    by (simp add: scanPage_resume_def Let_def showNotification_scannedTabs
        split: prod.splits phase.splits sum.splits)
next
  case (AwaitFetch pageData n model)
  then show ?thesis
    by (simp add: scanPage_resume_def Let_def showNotification_scannedTabs
        split: prod.splits phase.splits sum.splits)
qed

lemma scanPage_resume_scan:
  "scan_tabId (fst (scanPage_resume w st sc)) = scan_tabId sc"
  "(case scan_phase sc of Finished r \<Rightarrow> True | _ \<Rightarrow> False) \<Longrightarrow> fst (scanPage_resume w st sc) = sc"
  by (auto simp: scanPage_resume_def Let_def split: prod.splits phase.splits)

lemma step_keeps_absent:
  assumes absent: "scannedTabs (self ws) t = None"
    and nc: "\<not> stores_result 0 t ws ev"
  shows "scannedTabs (self (step ws ev)) t = None"
proof (cases ev)
  case (TabUpdated tabId changeInfo_url)
  with absent show ?thesis
    by (simp add: handleTabUpdated_def clearBadge_scannedTabs)
next
  case (TabActivated tabId)
  with absent show ?thesis
    by (simp add: handleTabActivated_scannedTabs)
next
  case (StorageChanged changes namespace)
  with absent show ?thesis
    by (simp add: handleStorageChange_scannedTabs)
next
  case (ScanPageMessage tabId u scanSource)
  with absent show ?thesis
    by (simp add: scanPage_call_def)
next
  case (ContextMenuClick menuItemId tabId tab_url)
  with absent show ?thesis
    by (simp add: handleContextMenuClick_def scanPage_call_def showNotification_scannedTabs)
next
  case (Continue k w)
  show ?thesis
  proof (cases "k < length (scans ws)")
    case False
    with Continue absent show ?thesis
      by simp
  next
    case True
    let ?sc = "scans ws ! k"
    have s: "scannedTabs (self (step ws ev)) = scannedTabs (snd (scanPage_continue w (self ws) ?sc))"
      using Continue True scanPage_resume_store [of w "self ws" ?sc]
      by (simp add: Let_def case_prod_beta)
    show ?thesis
    proof (cases "scan_tabId ?sc = t")
      case False
      with absent show ?thesis
        unfolding s scanPage_continue_store
        by (simp split: phase.splits sum.splits)
    next
      case same: True
      with nc Continue True absent show ?thesis
        unfolding s scanPage_continue_store
        by (simp split: phase.splits sum.splits)
    qed
  qed
qed

lemma run_keeps_absent:
  "scannedTabs (self ws) t = None \<Longrightarrow> \<not> scan_stored 0 t ws evs \<Longrightarrow>
     scannedTabs (self (run ws evs)) t = None"
proof (induction evs arbitrary: ws)
  case Nil
  then show ?case by (simp add: run_def)
next
  case (Cons ev evs)
  from Cons.prems have a: "scannedTabs (self (step ws ev)) t = None"
    by (intro step_keeps_absent) simp_all
  from Cons.prems have b: "\<not> scan_stored 0 t (step ws ev) evs"
    by simp
  from Cons.IH [OF a b] show ?case
    by (simp add: run_def)
qed


text \<open>A scan that has ended stays as it is, and no step changes the tab of a scan or
  the scans before it in the list.\<close>

lemma scanPage_resume_ended:
  "has_ended sc \<Longrightarrow> fst (scanPage_resume w st sc) = sc"
  by (auto simp: has_ended_def scanPage_resume_def split: phase.splits)

lemma scanPage_resume_tabId: "scan_tabId (fst (scanPage_resume w st sc)) = scan_tabId sc"
  by (auto simp: scanPage_resume_def Let_def split: prod.splits phase.splits)

lemma step_keeps_ended:
  assumes n: "n \<le> length (scans ws)"
    and e: "\<forall>k<n. scan_tabId (scans ws ! k) = t \<longrightarrow> has_ended (scans ws ! k)"
  shows "n \<le> length (scans (step ws ev)) \<and>
         (\<forall>k<n. scan_tabId (scans (step ws ev) ! k) = t \<longrightarrow> has_ended (scans (step ws ev) ! k))"
proof (cases ev)
  case (TabUpdated tabId changeInfo_url)
  with n e show ?thesis by simp
next
  case (TabActivated tabId)
  with n e show ?thesis by simp
next
  case (StorageChanged changes namespace)
  with n e show ?thesis by simp
next
  case (ScanPageMessage tabId u scanSource)
  with n e show ?thesis
    by (simp add: scanPage_call_def nth_append)
next
  case (ContextMenuClick menuItemId tabId tab_url)
  with n e show ?thesis
    by (simp add: handleContextMenuClick_def scanPage_call_def nth_append)
next
  case (Continue j w)
  show ?thesis
  proof (cases "j < length (scans ws)")
    case False
    with Continue n e show ?thesis by simp
  next
    case True
    let ?sc = "fst (scanPage_resume w (self ws) (scans ws ! j))"
    have s: "scans (step ws ev) = (scans ws)[j := ?sc]"
      using Continue True by (simp add: Let_def case_prod_beta)
    have "scan_tabId (scans (step ws ev) ! k) = t \<longrightarrow> has_ended (scans (step ws ev) ! k)"
      if k: "k < n" for k
    proof (cases "k = j")
      case False
      with e k show ?thesis
        unfolding s by simp
    next
      case same: True
      show ?thesis
      proof
        assume "scan_tabId (scans (step ws ev) ! k) = t"
        with same True have "scan_tabId (scans ws ! j) = t"
          unfolding s by (simp add: scanPage_resume_tabId)
        with e k same have en: "has_ended (scans ws ! j)"
          by simp
        from scanPage_resume_ended [OF en] en same True
        show "has_ended (scans (step ws ev) ! k)"
          unfolding s by simp
      qed
    qed
    with n show ?thesis
      unfolding s by simp
  qed
qed

lemma stores_result_later:
  assumes e: "\<forall>k<n. scan_tabId (scans ws ! k) = t \<longrightarrow> has_ended (scans ws ! k)"
    and st: "stores_result 0 t ws ev"
  shows "stores_result n t ws ev"
proof (cases ev)
  case (Continue k w)
  from st Continue have tab: "scan_tabId (scans ws ! k) = t" and "\<not> has_ended (scans ws ! k)"
    by (auto simp: has_ended_def split: phase.splits)
  with e have "\<not> k < n"
    by blast
  then have "n \<le> k"
    by simp
  with st Continue show ?thesis
    by simp
qed (use st in simp_all)

lemma scan_stored_later:
  "n \<le> length (scans ws) \<Longrightarrow>
   \<forall>k<n. scan_tabId (scans ws ! k) = t \<longrightarrow> has_ended (scans ws ! k) \<Longrightarrow>
   scan_stored 0 t ws evs \<Longrightarrow> scan_stored n t ws evs"
proof (induction evs arbitrary: ws)
  case Nil
  then show ?case by simp
next
  case (Cons ev evs)
  from step_keeps_ended [OF Cons.prems(1,2), of ev]
  have n': "n \<le> length (scans (step ws ev))"
    and e': "\<forall>k<n. scan_tabId (scans (step ws ev) ! k) = t \<longrightarrow> has_ended (scans (step ws ev) ! k)"
    by simp_all
  from Cons.prems(3) consider "stores_result 0 t ws ev" | "scan_stored 0 t (step ws ev) evs"
    by auto
  then show ?case
  proof cases
    case 1
    from stores_result_later [OF Cons.prems(2) 1] show ?thesis by simp
  next
    case 2
    from Cons.IH [OF n' e' 2] show ?thesis by simp
  qed
qed

lemma not_in_flight_ended:
  assumes "\<not> in_flight t ws"
  shows "\<forall>k<length (scans ws). scan_tabId (scans ws ! k) = t \<longrightarrow> has_ended (scans ws ! k)"
  using assms by (auto simp: in_flight_def list_ex_iff)

text \<open>The step that takes a scan to its result stores that result for the tab.\<close>

lemma stores_result_entry:
  assumes "stores_result first t ws (Continue k w)"
  shows "\<exists>result. scan_phase (scans (step ws (Continue k w)) ! k) = Finished (Inr result) \<and>
                  scannedTabs (self (step ws (Continue k w))) t = Some result"
proof -
  let ?sc = "scans ws ! k"
  from assms have k: "k < length (scans ws)" and tab: "scan_tabId ?sc = t"
    by simp_all
  from assms obtain pageData n model where ph: "scan_phase ?sc = AwaitFetch pageData n model"
    by (auto split: phase.splits)
  with assms obtain result st4
    where r: "analyzeWithGemini_resume w (self ws) pageData n model = (Finished (Inr result), st4)"
    by (cases "analyzeWithGemini_resume w (self ws) pageData n model")
      (auto split: phase.splits sum.splits)
  have c: "scanPage_continue w (self ws) ?sc =
             (Finished (Inr result), scanPage_result w st4 ?sc result)"
    using ph r by (simp add: scanPage_continue_def)
  have "scanPage_resume w (self ws) ?sc =
          (?sc\<lparr>scan_phase := Finished (Inr result)\<rparr>, scanPage_result w st4 ?sc result)"
    using ph c by (simp add: scanPage_resume_def)
  with k tab show ?thesis
    by (simp add: scanPage_result_scannedTabs)
qed

text \<open>
  Claim C6, as the code has it. A tab update with a new URL removes the entry of the
  tab, and the entry stays absent, whatever events follow, for as long as no scan of
  that tab reaches the point where it stores its result. When no scan of the tab is in
  flight at the update, the scans that can do so are those started after it: the entry
  stays absent until a new scan of the tab completes. The step that completes a scan of
  the tab stores the result of that scan for the tab.
\<close>

theorem navigation_invalidates_store:
  assumes "changeInfo_url = Some u" and "u \<noteq> []"
  shows "scannedTabs (self (step ws (TabUpdated t changeInfo_url))) t = None \<and>
         (\<not> scan_stored 0 t (step ws (TabUpdated t changeInfo_url)) evs \<longrightarrow>
            scannedTabs (self (run (step ws (TabUpdated t changeInfo_url)) evs)) t = None) \<and>
         (\<not> in_flight t ws \<and>
          \<not> scan_stored (length (scans ws)) t (step ws (TabUpdated t changeInfo_url)) evs \<longrightarrow>
            scannedTabs (self (run (step ws (TabUpdated t changeInfo_url)) evs)) t = None) \<and>
         (stores_result 0 t ws' (Continue k w) \<longrightarrow>
            (\<exists>result. scan_phase (scans (step ws' (Continue k w)) ! k) = Finished (Inr result) \<and>
                      scannedTabs (self (step ws' (Continue k w))) t = Some result))"
proof -
  let ?ws1 = "step ws (TabUpdated t changeInfo_url)"
  from assms have a: "scannedTabs (self ?ws1) t = None"
    by (simp add: handleTabUpdated_def clearBadge_scannedTabs)
  have b: "\<not> scan_stored 0 t ?ws1 evs \<longrightarrow> scannedTabs (self (run ?ws1 evs)) t = None"
    using run_keeps_absent [OF a] by blast
  have c: "\<not> in_flight t ws \<and> \<not> scan_stored (length (scans ws)) t ?ws1 evs \<longrightarrow>
             scannedTabs (self (run ?ws1 evs)) t = None"
  proof
    assume h: "\<not> in_flight t ws \<and> \<not> scan_stored (length (scans ws)) t ?ws1 evs"
    have sc: "scans ?ws1 = scans ws"
      by simp
    from h not_in_flight_ended
    have e: "\<forall>k<length (scans ws). scan_tabId (scans ?ws1 ! k) = t \<longrightarrow> has_ended (scans ?ws1 ! k)"
      unfolding sc by blast
    have n: "length (scans ws) \<le> length (scans ?ws1)"
      unfolding sc by simp
    from scan_stored_later [OF n e] h have "\<not> scan_stored 0 t ?ws1 evs"
      by blast
    with b show "scannedTabs (self (run ?ws1 evs)) t = None"
      by blast
  qed
  have d: "stores_result 0 t ws' (Continue k w) \<longrightarrow>
            (\<exists>result. scan_phase (scans (step ws' (Continue k w)) ! k) = Finished (Inr result) \<and>
                      scannedTabs (self (step ws' (Continue k w))) t = Some result)"
    using stores_result_entry [of 0 t ws' k w] by blast
  show ?thesis
    by (rule conjI [OF a conjI [OF b conjI [OF c d]]])
qed

lemma cached_before: "scannedTabs (self example_worker) 1 = Some example_result"
  by (simp add: example_worker_def example_cached_def)

lemma example_worker_idle: "\<not> in_flight 1 example_worker"
  by (simp add: example_worker_def in_flight_def)

lemma example_worker_scans: "length (scans example_worker) = 0"
  by (simp add: example_worker_def)

lemma other_tab_scanned:
  "\<not> scan_stored 0 1 (step example_worker (TabUpdated 1 (Some ''https://example.com/'')))
       [TabActivated 1,
        ScanPageMessage 2 (Str ''https://example.org/'') ''popup'',
        Continue 0 example_world, Continue 0 example_world, Continue 0 example_world]"
  by code_simp

lemma new_scan_stores:
  "stores_result 0 1
     (run (step example_worker (TabUpdated 1 (Some ''https://example.com/'')))
        [ScanPageMessage 1 (Str ''https://example.com/'') ''popup'',
         Continue 0 example_world, Continue 0 example_world])
     (Continue 0 example_world)"
  by code_simp

text \<open>
  Tab 1 has a cached result and no scan in flight when it navigates. The entry is
  removed and stays absent while the tab is activated and a scan of tab 2 runs to its
  end; the step that completes a new scan of tab 1 stores the result of that scan.
\<close>

theorem navigation_invalidates_store_witness:
  "scannedTabs (self example_worker) 1 = Some example_result \<and>
   \<not> in_flight 1 example_worker \<and>
   scannedTabs (self (step example_worker (TabUpdated 1 (Some ''https://example.com/'')))) 1 = None \<and>
   scannedTabs
     (self (run (step example_worker (TabUpdated 1 (Some ''https://example.com/'')))
              [TabActivated 1,
               ScanPageMessage 2 (Str ''https://example.org/'') ''popup'',
               Continue 0 example_world, Continue 0 example_world, Continue 0 example_world])) 1 =
     None \<and>
   (\<exists>result.
      scan_phase
        (scans (step (run (step example_worker (TabUpdated 1 (Some ''https://example.com/'')))
                        [ScanPageMessage 1 (Str ''https://example.com/'') ''popup'',
                         Continue 0 example_world, Continue 0 example_world])
                  (Continue 0 example_world)) ! 0) = Finished (Inr result) \<and>
      scannedTabs
        (self (step (run (step example_worker (TabUpdated 1 (Some ''https://example.com/'')))
                       [ScanPageMessage 1 (Str ''https://example.com/'') ''popup'',
                        Continue 0 example_world, Continue 0 example_world])
                 (Continue 0 example_world))) 1 = Some result)"
proof -
  have u: "Some ''https://example.com/'' = Some ''https://example.com/''" "''https://example.com/'' \<noteq> []"
    by simp_all
  note inst = navigation_invalidates_store [OF u, of example_worker 1
      "[TabActivated 1,
        ScanPageMessage 2 (Str ''https://example.org/'') ''popup'',
        Continue 0 example_world, Continue 0 example_world, Continue 0 example_world]"
      "run (step example_worker (TabUpdated 1 (Some ''https://example.com/'')))
        [ScanPageMessage 1 (Str ''https://example.com/'') ''popup'',
         Continue 0 example_world, Continue 0 example_world]"
      0 example_world]
  from inst have a: "scannedTabs (self (step example_worker (TabUpdated 1 (Some ''https://example.com/'')))) 1 = None"
    by blast
  from other_tab_scanned
  have quiet: "\<not> scan_stored (length (scans example_worker)) 1
       (step example_worker (TabUpdated 1 (Some ''https://example.com/'')))
       [TabActivated 1,
        ScanPageMessage 2 (Str ''https://example.org/'') ''popup'',
        Continue 0 example_world, Continue 0 example_world, Continue 0 example_world]"
    unfolding example_worker_scans .
  from inst example_worker_idle quiet
  have b: "scannedTabs
     (self (run (step example_worker (TabUpdated 1 (Some ''https://example.com/'')))
              [TabActivated 1,
               ScanPageMessage 2 (Str ''https://example.org/'') ''popup'',
               Continue 0 example_world, Continue 0 example_world, Continue 0 example_world])) 1 =
     None"
    by blast
  from inst new_scan_stores
  have c: "\<exists>result.
      scan_phase
        (scans (step (run (step example_worker (TabUpdated 1 (Some ''https://example.com/'')))
                        [ScanPageMessage 1 (Str ''https://example.com/'') ''popup'',
                         Continue 0 example_world, Continue 0 example_world])
                  (Continue 0 example_world)) ! 0) = Finished (Inr result) \<and>
      scannedTabs
        (self (step (run (step example_worker (TabUpdated 1 (Some ''https://example.com/'')))
                       [ScanPageMessage 1 (Str ''https://example.com/'') ''popup'',
                        Continue 0 example_world, Continue 0 example_world])
                 (Continue 0 example_world))) 1 = Some result"
    by blast
  from cached_before example_worker_idle a b c show ?thesis
    by blast
qed

text \<open>
  A scan of tab 1 has read the page at \<open>https://example.com/\<close> and waits for the answer
  of the model when the tab navigates to \<open>https://other.example/\<close>. The entry is removed;
  no scan is started after that; and when the answer arrives, the scan that was in
  flight stores its result, for the page the tab has left.
\<close>

theorem navigation_stale_result_counterexample:
  "in_flight 1 scan_in_flight \<and>
   scannedTabs (self (step scan_in_flight (TabUpdated 1 (Some ''https://other.example/'')))) 1 = None \<and>
   \<not> scan_stored (length (scans scan_in_flight)) 1
        (step scan_in_flight (TabUpdated 1 (Some ''https://other.example/'')))
        [Continue 0 example_world] \<and>
   length (scans (run (step scan_in_flight (TabUpdated 1 (Some ''https://other.example/'')))
                    [Continue 0 example_world])) = 1 \<and>
   map_option url
     (scannedTabs
        (self (run (step scan_in_flight (TabUpdated 1 (Some ''https://other.example/'')))
                 [Continue 0 example_world])) 1) = Some ''https://example.com/''"
  by code_simp

section \<open>URLs that are not scanned\<close>

lemma not_scannable:
  assumes "u = NotString \<or> u = Str [] \<or>
     (\<exists>s scheme. u = Str s \<and> scheme \<in> set unscannable \<and> startsWith (toLowerCase s) scheme)"
  shows "\<not> isScannableUrl u"
  using assms by (auto simp: isScannableUrl_def list_ex_iff Let_def)

text \<open>
  Claim C10, as the code has it. For every URL that is missing, is no string, or
  starts in lower case with one of the restricted schemes, \<open>scanPage\<close> throws before it
  reads the page or sends a request, and leaves \<open>scannedTabs\<close> as it was. The error is
  "Cannot scan this type of page" when an API key is configured, and "API key not
  configured" when none is: the key is checked first.
\<close>

theorem unscannable_url_rejected:
  assumes "u = NotString \<or> u = Str [] \<or>
     (\<exists>s scheme. u = Str s \<and> scheme \<in> set unscannable \<and> startsWith (toLowerCase s) scheme)"
  shows "fst (scanPage w st tabId u scanSource) =
           Inl (Error (if geminiApiKey (loadSettings w st) = None \<or>
                          geminiApiKey (loadSettings w st) = Some []
                       then ''API key not configured''
                       else ''Cannot scan this type of page'')) \<and>
         scannedTabs (snd (scanPage w st tabId u scanSource)) = scannedTabs st \<and>
         extracted (snd (scanPage w st tabId u scanSource)) = extracted st \<and>
         fetched (snd (scanPage w st tabId u scanSource)) = fetched st"
  using not_scannable [OF assms]
  by (simp add: scanPage_def Let_def loadSettings_keeps)

lemma restricted_example:
  "''chrome://'' \<in> set unscannable \<and> startsWith (toLowerCase ''chrome://extensions'') ''chrome://''"
  by code_simp

lemma example_key:
  "geminiApiKey (loadSettings example_world (new_background example_sync)) = Some ''AIzaSyExampleKey''"
  by code_simp

theorem unscannable_url_rejected_witness:
  "''chrome://'' \<in> set unscannable \<and>
   startsWith (toLowerCase ''chrome://extensions'') ''chrome://'' \<and>
   fst (scanPage example_world (new_background example_sync) 1 (Str ''chrome://extensions'') ''popup'') =
     Inl (Error ''Cannot scan this type of page'') \<and>
   scannedTabs (snd (scanPage example_world (new_background example_sync) 1
                       (Str ''chrome://extensions'') ''popup'')) =
     scannedTabs (new_background example_sync)"
proof -
  have h: "Str ''chrome://extensions'' = NotString \<or> Str ''chrome://extensions'' = Str [] \<or>
     (\<exists>s scheme. Str ''chrome://extensions'' = Str s \<and> scheme \<in> set unscannable \<and>
        startsWith (toLowerCase s) scheme)"
    using restricted_example by blast
  from unscannable_url_rejected [OF h, of example_world "new_background example_sync" 1 "''popup''"]
  show ?thesis
    unfolding example_key using restricted_example by simp
qed

text \<open>
  With no API key stored, a scan of \<open>chrome://extensions\<close> is rejected for the missing
  key, not for the URL.
\<close>

theorem api_key_checked_first_counterexample:
  "\<not> isScannableUrl (Str ''chrome://extensions'') \<and>
   fst (scanPage example_world (new_background (example_sync\<lparr>sync_geminiApiKey := None\<rparr>)) 1
         (Str ''chrome://extensions'') ''popup'') =
     Inl (Error ''API key not configured'')"
  by code_simp

section \<open>Tier fallback\<close>

lemma tier_chain_eq: "tier_chain = [''gemini-2.5-pro'', ''gemini-2.5-flash'', ''gemini-2.5-flash-lite'']"
  by code_simp

lemma parseGeminiResponse_model_only:
  assumes "currentModel st = currentModel st'"
  shows "parseGeminiResponse w st text u = parseGeminiResponse w st' text u"
proof -
  have fa: "fallbackAnalysis w st u v = fallbackAnalysis w st' u v" for v
    using assms by (simp add: fallbackAnalysis_def split: js_value.splits)
  have tr: "parseGeminiResponse_try w st text u = parseGeminiResponse_try w st' text u"
    using assms fa
    by (simp add: parseGeminiResponse_try_def Let_def split: js_value.splits option.splits)
  show ?thesis
    unfolding parseGeminiResponse_def tr fa by (rule refl)
qed

text \<open>A request depends on the worker through the current model and the number of
  requests sent so far.\<close>

lemma request_cong:
  assumes "length (fetched st) = length (fetched st')" "currentModel st = currentModel st'"
  shows "request w st pageData = request w st' pageData"
  using assms parseGeminiResponse_model_only [OF assms(2)]
  by (simp add: request_def split: api_response.splits option.splits)

lemma request_model:
  assumes "request w st pageData = Inr r"
  shows "modelUsed r = currentModel st"
proof -
  from assms obtain reply where t: "parseGeminiResponse w st reply (fullUrl pageData) = Inr r"
    by (auto simp: request_def split: api_response.splits option.splits if_splits)
  show ?thesis
  proof (cases reply)
    case (Str s)
    with t parseGeminiResponse_returns [of w st s "fullUrl pageData"] show ?thesis
      by auto
  next
    case NotString
    with t show ?thesis
      by (simp add: parseGeminiResponse_def parseGeminiResponse_try_def fallbackAnalysis_def)
  qed
qed

lemma next_after_pro:
  "currentModel st = Some ''gemini-2.5-pro'' \<Longrightarrow> getNextFallbackModel st = Some ''gemini-2.5-flash''"
  by (simp add: getNextFallbackModel_def GEMINI_CONFIG_models_def GEMINI_CONFIG_fallbackOrder_def)

lemma next_after_flash:
  "currentModel st = Some ''gemini-2.5-flash'' \<Longrightarrow>
     getNextFallbackModel st = Some ''gemini-2.5-flash-lite''"
  by (simp add: getNextFallbackModel_def GEMINI_CONFIG_models_def GEMINI_CONFIG_fallbackOrder_def)

lemma next_after_flash_lite:
  "currentModel st = Some ''gemini-2.5-flash-lite'' \<Longrightarrow> getNextFallbackModel st = None"
  by (simp add: getNextFallbackModel_def GEMINI_CONFIG_models_def GEMINI_CONFIG_fallbackOrder_def)

lemma getNextFallbackModel_chain:
  assumes "i < length tier_chain" "currentModel st = Some (tier_chain ! i)"
  shows "getNextFallbackModel st =
           (if Suc i < length tier_chain then Some (tier_chain ! Suc i) else None)"
proof -
  from assms(1) consider "i = 0" | "i = 1" | "i = 2"
    unfolding tier_chain_eq by force
  then show ?thesis
  proof cases
    case 1
    with assms(2) have "currentModel st = Some ''gemini-2.5-pro''"
      unfolding tier_chain_eq by simp
    from next_after_pro [OF this] 1 show ?thesis
      unfolding tier_chain_eq by simp
  next
    case 2
    with assms(2) have "currentModel st = Some ''gemini-2.5-flash''"
      unfolding tier_chain_eq by simp
    from next_after_flash [OF this] 2 show ?thesis
      unfolding tier_chain_eq by simp
  next
    case 3
    with assms(2) have "currentModel st = Some ''gemini-2.5-flash-lite''"
      unfolding tier_chain_eq by simp
    from next_after_flash_lite [OF this] 3 show ?thesis
      unfolding tier_chain_eq by simp
  qed
qed

lemma getNextFallbackModel_fetched:
  "getNextFallbackModel (st\<lparr>fetched := f\<rparr>) = getNextFallbackModel st"
  by (simp add: getNextFallbackModel_def)

text \<open>The three ways one call of \<open>analyzeWithGemini\<close> goes on.\<close>

lemma analyze_success:
  assumes "request w st pageData = Inr r"
  shows "analyzeWithGemini w st pageData = (Inr r, st\<lparr>fetched := fetched st @ [currentModel st]\<rparr>)"
  using assms by (subst analyzeWithGemini.simps) simp

lemma analyze_advance:
  assumes "request w st pageData = Inl e" "getNextFallbackModel st = Some nextModel"
  shows "analyzeWithGemini w st pageData =
           analyzeWithGemini w
             (st\<lparr>fetched := fetched st @ [currentModel st],
                 notices := notices st @
                   [(getModelDisplayName (currentModel st), getModelDisplayName (Some nextModel))],
                 currentModel := Some nextModel\<rparr>)
             pageData"
  using assms by (subst analyzeWithGemini.simps) (simp add: getNextFallbackModel_fetched)

lemma analyze_exhausted:
  assumes "request w st pageData = Inl e" "getNextFallbackModel st = None"
  shows "analyzeWithGemini w st pageData =
           (Inl (Error (''All Gemini models failed: '' @ message w e)),
            st\<lparr>fetched := fetched st @ [currentModel st],
               currentModel := map_of GEMINI_CONFIG_models (selectedModel st)\<rparr>)"
  using assms by (subst analyzeWithGemini.simps) (simp add: getNextFallbackModel_fetched)

text \<open>\<open>request\<close>, the \<open>try\<close> block as a whole, is \<open>settle\<close> on the answer to its \<open>fetch\<close>.\<close>

lemma request_settle:
  "request w st pageData = settle w st pageData (remote w (length (fetched st)) (currentModel st))"
  by (simp add: request_def settle_def)

lemma settle_cong:
  assumes "currentModel st = currentModel st'"
  shows "settle w st pageData response = settle w st' pageData response"
  using parseGeminiResponse_model_only [OF assms]
  by (simp add: settle_def split: api_response.splits option.splits)

lemma next_tiers_left:
  assumes "getNextFallbackModel st = Some nextModel"
  shows "1 \<le> tiers_left (Some nextModel)" and "tiers_left (Some nextModel) < tiers_left (currentModel st)"
  using assms
  by (auto simp: getNextFallbackModel_def GEMINI_CONFIG_models_def
      GEMINI_CONFIG_fallbackOrder_def tiers_left_def split: if_splits)

lemma proceed_Finished: "(proceed w ^^ j) (Finished r, st) = (Finished r, st)"
  by (induction j) simp_all

text \<open>
  A call of \<open>analyzeWithGemini\<close> that goes on from each \<open>fetch\<close> with no other handler in
  between computes the function \<open>analyzeWithGemini\<close>; three steps are enough.
\<close>

lemma analysis_uninterrupted:
  "1 \<le> j \<Longrightarrow> tiers_left (currentModel st) \<le> j \<Longrightarrow>
   (proceed w ^^ j) (analyzeWithGemini_call st pageData) =
     (Finished (fst (analyzeWithGemini w st pageData)), snd (analyzeWithGemini w st pageData))"
proof (induction j arbitrary: st)
  case 0
  then show ?case by simp
next
  case (Suc j)
  let ?st1 = "st\<lparr>fetched := fetched st @ [currentModel st]\<rparr>"
  have pw: "(proceed w ^^ Suc j) (analyzeWithGemini_call st pageData) =
              (proceed w ^^ j)
                (analyzeWithGemini_resume w ?st1 pageData (length (fetched st)) (currentModel st))"
    unfolding funpow_Suc_right by (simp add: analyzeWithGemini_call_def)
  have se: "settle w ?st1 pageData (remote w (length (fetched st)) (currentModel st)) =
              request w st pageData"
    unfolding request_settle by (rule settle_cong) simp
  show ?case
  proof (cases "request w st pageData")
    case (Inr result)
    with se have "analyzeWithGemini_resume w ?st1 pageData (length (fetched st)) (currentModel st) =
                    (Finished (Inr result), ?st1)"
      by (simp add: analyzeWithGemini_resume_def)
    then show ?thesis
      unfolding pw analyze_success [OF Inr] by (simp add: proceed_Finished)
  next
    case (Inl error)
    show ?thesis
    proof (cases "getNextFallbackModel st")
      case None
      with Inl se
      have "analyzeWithGemini_resume w ?st1 pageData (length (fetched st)) (currentModel st) =
              (Finished (Inl (Error (''All Gemini models failed: '' @ message w error))),
               ?st1\<lparr>currentModel := map_of GEMINI_CONFIG_models (selectedModel ?st1)\<rparr>)"
        by (simp add: analyzeWithGemini_resume_def getNextFallbackModel_fetched)
      then show ?thesis
        unfolding pw analyze_exhausted [OF Inl None] by (simp add: proceed_Finished)
    next
      case (Some nextModel)
      let ?st2 = "st\<lparr>fetched := fetched st @ [currentModel st],
                     notices := notices st @
                       [(getModelDisplayName (currentModel st), getModelDisplayName (Some nextModel))],
                     currentModel := Some nextModel\<rparr>"
      from Inl Some se
      have r: "analyzeWithGemini_resume w ?st1 pageData (length (fetched st)) (currentModel st) =
                 analyzeWithGemini_call ?st2 pageData"
        by (simp add: analyzeWithGemini_resume_def getNextFallbackModel_fetched)
      from next_tiers_left [OF Some] Suc.prems
      have j1: "1 \<le> j" and j2: "tiers_left (currentModel ?st2) \<le> j"
        by simp_all
      from Suc.IH [OF j1 j2] show ?thesis
        unfolding pw r analyze_advance [OF Inl Some] .
    qed
  qed
qed

lemma tiers_left_le: "tiers_left m \<le> 3"
  by (simp add: tiers_left_def)


text \<open>The steps of one scan with no other event in between.\<close>

lemma run_Continue:
  "k < length (scans ws) \<Longrightarrow>
   run ws (replicate j (Continue k w)) =
     ws\<lparr>self := snd (((\<lambda>(sc, st). scanPage_resume w st sc) ^^ j) (scans ws ! k, self ws)),
        scans := (scans ws)[k := fst (((\<lambda>(sc, st). scanPage_resume w st sc) ^^ j) (scans ws ! k, self ws))]\<rparr>"
proof (induction j arbitrary: ws)
  case 0
  then show ?case
    by (simp add: run_def)
next
  case (Suc j)
  let ?F = "\<lambda>(sc, st). scanPage_resume w st sc"
  let ?x = "scanPage_resume w (self ws) (scans ws ! k)"
  let ?ws1 = "ws\<lparr>self := snd ?x, scans := (scans ws)[k := fst ?x]\<rparr>"
  from Suc.prems have s: "step ws (Continue k w) = ?ws1"
    by (simp add: Let_def case_prod_beta)
  from Suc.prems have k1: "k < length (scans ?ws1)"
    by simp
  have x: "(scans ?ws1 ! k, self ?ws1) = ?F (scans ws ! k, self ws)"
    using Suc.prems by simp
  have "run ws (replicate (Suc j) (Continue k w)) = run ?ws1 (replicate j (Continue k w))"
    using s by (simp add: run_def)
  also have "\<dots> = ?ws1\<lparr>self := snd ((?F ^^ j) (scans ?ws1 ! k, self ?ws1)),
                        scans := (scans ?ws1)[k := fst ((?F ^^ j) (scans ?ws1 ! k, self ?ws1))]\<rparr>"
    by (rule Suc.IH [OF k1])
  also have "\<dots> = ws\<lparr>self := snd ((?F ^^ Suc j) (scans ws ! k, self ws)),
                      scans := (scans ws)[k := fst ((?F ^^ Suc j) (scans ws ! k, self ws))]\<rparr>"
    unfolding x funpow_Suc_right by simp
  finally show ?case .
qed

lemma resume_ended:
  "has_ended sc \<Longrightarrow> ((\<lambda>(sc, st). scanPage_resume w st sc) ^^ j) (sc, st) = (sc, st)"
  by (induction j) (auto simp: has_ended_def scanPage_resume_def split: phase.splits)

lemma analyzeWithGemini_resume_phase:
  "fst (analyzeWithGemini_resume w st pageData n model) \<noteq> AwaitSettings"
  "fst (analyzeWithGemini_resume w st pageData n model) \<noteq> AwaitPage"
  by (simp_all add: analyzeWithGemini_resume_def analyzeWithGemini_call_def
      split: sum.splits option.splits)

lemma scanPage_result_phase [simp]:
  "scanPage_result w st (sc\<lparr>scan_phase := ph\<rparr>) result = scanPage_result w st sc result"
  by (simp add: scanPage_result_def)

lemma resume_fetch:
  assumes "\<not> from_menu sc"
  shows "((\<lambda>(sc, st). scanPage_resume w st sc) ^^ j) (sc\<lparr>scan_phase := AwaitFetch pageData n model\<rparr>, st) =
           scan_outcome w sc ((proceed w ^^ j) (AwaitFetch pageData n model, st))"
proof (induction j arbitrary: pageData n model st)
  case 0
  show ?case
    by (simp add: scan_outcome_def)
next
  case (Suc j)
  let ?F = "\<lambda>(sc, st). scanPage_resume w st sc"
  obtain ph st1 where r: "analyzeWithGemini_resume w st pageData n model = (ph, st1)"
    by (cases "analyzeWithGemini_resume w st pageData n model")
  have p: "(proceed w ^^ Suc j) (AwaitFetch pageData n model, st) = (proceed w ^^ j) (ph, st1)"
    unfolding funpow_Suc_right using r by simp
  have l: "(?F ^^ Suc j) (sc\<lparr>scan_phase := AwaitFetch pageData n model\<rparr>, st) =
             (?F ^^ j) (?F (sc\<lparr>scan_phase := AwaitFetch pageData n model\<rparr>, st))"
    by (simp only: funpow_Suc_right comp_def)
  show ?case
  proof (cases ph)
    case AwaitSettings
    with r analyzeWithGemini_resume_phase(1) [of w st pageData n model] show ?thesis
      by simp
  next
    case AwaitPage
    with r analyzeWithGemini_resume_phase(2) [of w st pageData n model] show ?thesis
      by simp
  next
    case (AwaitFetch pageData' n' model')
    with r assms
    have f: "?F (sc\<lparr>scan_phase := AwaitFetch pageData n model\<rparr>, st) =
               (sc\<lparr>scan_phase := AwaitFetch pageData' n' model'\<rparr>, st1)"
      by (simp add: scanPage_resume_def scanPage_continue_def)
    show ?thesis
      unfolding l f p AwaitFetch by (rule Suc.IH)
  next
    case (Finished res)
    show ?thesis
    proof (cases res)
      case (Inl error)
      with r assms Finished
      have f: "?F (sc\<lparr>scan_phase := AwaitFetch pageData n model\<rparr>, st) =
                 (sc\<lparr>scan_phase := Finished (Inl error)\<rparr>, st1)"
        by (simp add: scanPage_resume_def scanPage_continue_def)
      have e: "has_ended (sc\<lparr>scan_phase := Finished (Inl error)\<rparr>)"
        by (simp add: has_ended_def)
      show ?thesis
        unfolding l f p Finished Inl resume_ended [OF e] proceed_Finished
        by (simp add: scan_outcome_def)
    next
      case (Inr result)
      with r assms Finished
      have f: "?F (sc\<lparr>scan_phase := AwaitFetch pageData n model\<rparr>, st) =
                 (sc\<lparr>scan_phase := Finished (Inr result)\<rparr>, scanPage_result w st1 sc result)"
        by (simp add: scanPage_resume_def scanPage_continue_def)
      have e: "has_ended (sc\<lparr>scan_phase := Finished (Inr result)\<rparr>)"
        by (simp add: has_ended_def)
      show ?thesis
        unfolding l f p Finished Inr resume_ended [OF e] proceed_Finished
        by (simp add: scan_outcome_def)
    qed
  qed
qed


lemma funpow_5: "(f ^^ 5) x = (f ^^ 3) (f (f x))"
  by (simp add: eval_nat_numeral funpow_swap1)

lemma funpow_4_ended:
  "has_ended sc \<Longrightarrow> ((\<lambda>(sc, st). scanPage_resume w st sc) ^^ 3) ((\<lambda>(sc, st). scanPage_resume w st sc) (sc, st)) = (sc, st)"
  using resume_ended [where sc = sc and w = w and j = "Suc 3" and st = st]
  by (simp only: funpow_Suc_right comp_def)

text \<open>
  A scan that is started by a \<open>scanPage\<close> message and goes on five times with no other
  event in between has ended, and what it returned or threw and the worker it leaves
  are those of the function \<open>scanPage\<close>.
\<close>

lemma scan_uninterrupted:
  "((\<lambda>(sc, st). scanPage_resume w st sc) ^^ 5)
     (\<lparr>scan_tabId = tabId, scan_url = u, scan_scanSource = scanSource,
       from_menu = False, scan_phase = AwaitSettings\<rparr>, st) =
   (\<lparr>scan_tabId = tabId, scan_url = u, scan_scanSource = scanSource,
     from_menu = False, scan_phase = Finished (fst (scanPage w st tabId u scanSource))\<rparr>,
    snd (scanPage w st tabId u scanSource))"
proof -
  let ?F = "\<lambda>(sc, st). scanPage_resume w st sc"
  let ?sc = "\<lambda>ph. \<lparr>scan_tabId = tabId, scan_url = u, scan_scanSource = scanSource,
                   from_menu = False, scan_phase = ph\<rparr>"
  let ?st2 = "(loadSettings w st)\<lparr>currentModel := map_of GEMINI_CONFIG_models (selectedModel (loadSettings w st))\<rparr>"
  let ?st3 = "?st2\<lparr>extracted := extracted ?st2 @ [tabId]\<rparr>"
  show ?thesis
  proof (cases "geminiApiKey ?st2 = None \<or> geminiApiKey ?st2 = Some []")
    case True
    then have f: "?F (?sc AwaitSettings, st) = (?sc (Finished (Inl (Error ''API key not configured''))), ?st2)"
      by (simp add: scanPage_resume_def scanPage_continue_def scanPage_settings_def Let_def)
    have e: "has_ended (?sc (Finished (Inl (Error ''API key not configured''))))"
      by (simp add: has_ended_def)
    from True have r: "scanPage w st tabId u scanSource = (Inl (Error ''API key not configured''), ?st2)"
      by (simp add: scanPage_def Let_def)
    show ?thesis
      unfolding funpow_5 f r funpow_4_ended [OF e] by simp
  next
    case key: False
    show ?thesis
    proof (cases "isScannableUrl u")
      case False
      with key have f: "?F (?sc AwaitSettings, st) =
                          (?sc (Finished (Inl (Error ''Cannot scan this type of page''))), ?st2)"
        by (auto simp: scanPage_resume_def scanPage_continue_def scanPage_settings_def Let_def)
      have e: "has_ended (?sc (Finished (Inl (Error ''Cannot scan this type of page''))))"
        by (simp add: has_ended_def)
      from key False
      have r: "scanPage w st tabId u scanSource = (Inl (Error ''Cannot scan this type of page''), ?st2)"
        by (auto simp: scanPage_def Let_def)
      show ?thesis
        unfolding funpow_5 f r funpow_4_ended [OF e] by simp
    next
      case True
      with key have f: "?F (?sc AwaitSettings, st) = (?sc AwaitPage, ?st3)"
        by (auto simp: scanPage_resume_def scanPage_continue_def scanPage_settings_def Let_def)
      show ?thesis
      proof (cases "page_content w tabId")
        case (Inl error)
        then have g: "?F (?sc AwaitPage, ?st3) = (?sc (Finished (Inl error)), ?st3)"
          by (simp add: scanPage_resume_def scanPage_continue_def scanPage_page_def)
        have e: "has_ended (?sc (Finished (Inl error)))"
          by (simp add: has_ended_def)
        from key True Inl have r: "scanPage w st tabId u scanSource = (Inl error, ?st3)"
          by (auto simp: scanPage_def Let_def getPageContent_def)
        show ?thesis
          unfolding funpow_5 f g r resume_ended [OF e] by simp
      next
        case (Inr content)
        let ?pd = "content\<lparr>isDomainSuspicious :=
                       (case u of Str s \<Rightarrow> isSuspiciousDomain w s | NotString \<Rightarrow> False)\<rparr>"
        let ?n = "length (fetched ?st3)"
        let ?m = "currentModel ?st3"
        let ?st3' = "?st3\<lparr>fetched := fetched ?st3 @ [currentModel ?st3]\<rparr>"
        have call: "analyzeWithGemini_call ?st3 ?pd = (AwaitFetch ?pd ?n ?m, ?st3')"
          by (simp add: analyzeWithGemini_call_def)
        from Inr have g: "?F (?sc AwaitPage, ?st3) = ((?sc AwaitSettings)\<lparr>scan_phase := AwaitFetch ?pd ?n ?m\<rparr>, ?st3')"
          by (simp add: scanPage_resume_def scanPage_continue_def scanPage_page_def Let_def
              analyzeWithGemini_call_def)
        have nm: "\<not> from_menu (?sc AwaitSettings)"
          by simp
        have three: "(proceed w ^^ 3) (AwaitFetch ?pd ?n ?m, ?st3') =
                       (Finished (fst (analyzeWithGemini w ?st3 ?pd)), snd (analyzeWithGemini w ?st3 ?pd))"
          using analysis_uninterrupted [where j = 3 and st = ?st3 and w = w and pageData = ?pd] tiers_left_le [of "currentModel ?st3"]
          unfolding call by simp
        obtain res st4 where a: "analyzeWithGemini w ?st3 ?pd = (res, st4)"
          by (cases "analyzeWithGemini w ?st3 ?pd")
        from key True Inr a
        have r: "scanPage w st tabId u scanSource =
                   (case res of
                      Inl error \<Rightarrow> (Inl error, st4)
                    | Inr result \<Rightarrow> (Inr result, scanPage_result w st4 (?sc AwaitSettings) result))"
          by (auto simp: scanPage_def Let_def getPageContent_def scanPage_result_def split: sum.splits)
        show ?thesis
          unfolding funpow_5 f g resume_fetch [OF nm] three r a
          by (simp add: scan_outcome_def split: sum.splits)
      qed
    qed
  qed
qed

lemma scanPage_uninterrupted:
  "run ws (ScanPageMessage tabId u scanSource # replicate 5 (Continue (length (scans ws)) w)) =
     ws\<lparr>self := snd (scanPage w (self ws) tabId u scanSource),
        scans := scans ws @
          [\<lparr>scan_tabId = tabId, scan_url = u, scan_scanSource = scanSource, from_menu = False,
            scan_phase = Finished (fst (scanPage w (self ws) tabId u scanSource))\<rparr>]\<rparr>"
proof -
  let ?sc0 = "\<lparr>scan_tabId = tabId, scan_url = u, scan_scanSource = scanSource,
               from_menu = False, scan_phase = AwaitSettings\<rparr>"
  let ?ws1 = "ws\<lparr>scans := scans ws @ [?sc0]\<rparr>"
  have k: "length (scans ws) < length (scans ?ws1)"
    by simp
  have x: "scans ?ws1 ! length (scans ws) = ?sc0" "self ?ws1 = self ws"
    by simp_all
  have "run ws (ScanPageMessage tabId u scanSource # replicate 5 (Continue (length (scans ws)) w)) =
          run ?ws1 (replicate 5 (Continue (length (scans ws)) w))"
    by (simp add: run_def scanPage_call_def)
  then show ?thesis
    unfolding run_Continue [OF k] x scan_uninterrupted by simp
qed


text \<open>
  The requests of a call that starts at a tier of the chain and that nothing
  interrupts: every request but the last fails, and the outcome of the call is the
  outcome of the last request.
\<close>

lemma at_request_0:
  assumes "currentModel st = Some (tier_chain ! i)"
  shows "request w (at_request st i 0) pageData = request w st pageData"
  by (rule request_cong) (simp_all add: at_request_def assms)

lemma at_request_Suc:
  assumes "i < length tier_chain"
  shows "request w
           (at_request
              (st\<lparr>fetched := fetched st @ [c], notices := ns, currentModel := Some (tier_chain ! Suc i)\<rparr>)
              (Suc i) j) pageData =
         request w (at_request st i (Suc j)) pageData"
proof (rule request_cong)
  from assms have "drop i tier_chain = tier_chain ! i # drop (Suc i) tier_chain"
    by (simp add: Cons_nth_drop_Suc)
  then show "length (fetched (at_request
              (st\<lparr>fetched := fetched st @ [c], notices := ns, currentModel := Some (tier_chain ! Suc i)\<rparr>)
              (Suc i) j)) = length (fetched (at_request st i (Suc j)))"
    by (simp add: at_request_def)
  show "currentModel (at_request
              (st\<lparr>fetched := fetched st @ [c], notices := ns, currentModel := Some (tier_chain ! Suc i)\<rparr>)
              (Suc i) j) = currentModel (at_request st i (Suc j))"
    by (simp add: at_request_def)
qed

lemma tier_trace:
  "i < length tier_chain \<Longrightarrow> currentModel st = Some (tier_chain ! i) \<Longrightarrow>
   \<exists>n. i + n < length tier_chain \<and>
       fetched (snd (analyzeWithGemini w st pageData)) =
         fetched st @ map Some (take (Suc n) (drop i tier_chain)) \<and>
       length (notices (snd (analyzeWithGemini w st pageData))) = length (notices st) + n \<and>
       (\<forall>j<n. \<exists>err. request w (at_request st i j) pageData = Inl err) \<and>
       (case fst (analyzeWithGemini w st pageData) of
          Inr r \<Rightarrow> request w (at_request st i n) pageData = Inr r \<and>
                   modelUsed r = Some (tier_chain ! (i + n))
        | Inl e \<Rightarrow> Suc (i + n) = length tier_chain \<and>
                   (\<exists>err. request w (at_request st i n) pageData = Inl err \<and>
                          e = Error (''All Gemini models failed: '' @ message w err)))"
proof (induction w st pageData arbitrary: i rule: analyzeWithGemini.induct)
  case (1 w st pageData)
  note i = "1.prems"(1) and cur = "1.prems"(2)
  have hd: "take (Suc 0) (drop i tier_chain) = [tier_chain ! i]"
    using i by (simp add: take_Suc_conv_app_nth)
  note r0 = at_request_0 [OF cur, of w pageData]
  show ?case
  proof (cases "request w st pageData")
    case (Inr r)
    from request_model [OF Inr] cur have "modelUsed r = Some (tier_chain ! i)" by simp
    with i cur hd r0 Inr show ?thesis
      unfolding analyze_success [OF Inr]
      by (intro exI [of _ 0]) simp
  next
    case (Inl e)
    show ?thesis
    proof (cases "Suc i < length tier_chain")
      case False
      with getNextFallbackModel_chain [OF i cur] have "getNextFallbackModel st = None"
        by simp
      with i cur hd False r0 Inl show ?thesis
        unfolding analyze_exhausted [OF Inl \<open>getNextFallbackModel st = None\<close>]
        by (intro exI [of _ 0]) auto
    next
      case True
      let ?next = "tier_chain ! Suc i"
      let ?st1 = "st\<lparr>fetched := fetched st @ [currentModel st]\<rparr>"
      let ?st2 = "?st1\<lparr>notices := notices ?st1 @
                      [(getModelDisplayName (currentModel ?st1), getModelDisplayName (Some ?next))],
                    currentModel := Some ?next\<rparr>"
      let ?ns = "notices st @ [(getModelDisplayName (currentModel st), getModelDisplayName (Some ?next))]"
      have st2: "?st2 = st\<lparr>fetched := fetched st @ [currentModel st], notices := ?ns,
                            currentModel := Some (tier_chain ! Suc i)\<rparr>"
        by simp
      from getNextFallbackModel_chain [OF i cur] True
      have nx: "getNextFallbackModel st = Some ?next" by simp
      then have nx1: "getNextFallbackModel ?st1 = Some ?next"
        by (simp add: getNextFallbackModel_fetched)
      have cur2: "currentModel ?st2 = Some (tier_chain ! Suc i)" by simp
      from "1.IH" [OF refl Inl nx1 True cur2]
      obtain n where n: "Suc i + n < length tier_chain"
        and f: "fetched (snd (analyzeWithGemini w ?st2 pageData)) =
                  fetched ?st2 @ map Some (take (Suc n) (drop (Suc i) tier_chain))"
        and l: "length (notices (snd (analyzeWithGemini w ?st2 pageData))) = length (notices ?st2) + n"
        and q: "\<forall>j<n. \<exists>err. request w (at_request ?st2 (Suc i) j) pageData = Inl err"
        and c: "(case fst (analyzeWithGemini w ?st2 pageData) of
                   Inr r \<Rightarrow> request w (at_request ?st2 (Suc i) n) pageData = Inr r \<and>
                            modelUsed r = Some (tier_chain ! (Suc i + n))
                 | Inl e \<Rightarrow> Suc (Suc i + n) = length tier_chain \<and>
                            (\<exists>err. request w (at_request ?st2 (Suc i) n) pageData = Inl err \<and>
                                   e = Error (''All Gemini models failed: '' @ message w err)))"
        by blast
      have shift: "request w (at_request ?st2 (Suc i) j) pageData =
                   request w (at_request st i (Suc j)) pageData" for j
        unfolding st2 by (rule at_request_Suc [OF i])
      have eq: "analyzeWithGemini w st pageData = analyzeWithGemini w ?st2 pageData"
        using analyze_advance [OF Inl nx] by simp
      have dr: "drop i tier_chain = tier_chain ! i # drop (Suc i) tier_chain"
        using i by (simp add: Cons_nth_drop_Suc)
      have f': "fetched (snd (analyzeWithGemini w st pageData)) =
                  fetched st @ map Some (take (Suc (Suc n)) (drop i tier_chain))"
        unfolding eq f dr using cur by simp
      have l': "length (notices (snd (analyzeWithGemini w st pageData))) = length (notices st) + Suc n"
        unfolding eq l by simp
      have q': "\<forall>j<Suc n. \<exists>err. request w (at_request st i j) pageData = Inl err"
      proof (intro allI impI)
        fix j
        assume j: "j < Suc n"
        show "\<exists>err. request w (at_request st i j) pageData = Inl err"
        proof (cases j)
          case 0
          with r0 Inl show ?thesis by simp
        next
          case (Suc j')
          with j q have "\<exists>err. request w (at_request ?st2 (Suc i) j') pageData = Inl err"
            by simp
          then show ?thesis
            unfolding shift Suc .
        qed
      qed
      from c have c': "(case fst (analyzeWithGemini w ?st2 pageData) of
                   Inr r \<Rightarrow> request w (at_request st i (Suc n)) pageData = Inr r \<and>
                            modelUsed r = Some (tier_chain ! (i + Suc n))
                 | Inl e \<Rightarrow> Suc (i + Suc n) = length tier_chain \<and>
                            (\<exists>err. request w (at_request st i (Suc n)) pageData = Inl err \<and>
                                   e = Error (''All Gemini models failed: '' @ message w err)))"
        unfolding shift by (simp split: sum.splits)
      from n have n': "i + Suc n < length tier_chain" by simp
      from n' f' l' q' c' show ?thesis
        unfolding eq by (intro exI [of _ "Suc n"] conjI)
    qed
  qed
qed

text \<open>A transport failure, a response that is not \<open>ok\<close> and a response without text all
  make the request throw.\<close>

lemma request_failures:
  "remote w (length (fetched st)) (currentModel st) = FetchFailed e \<Longrightarrow>
     request w st pageData = Inl e"
  "remote w (length (fetched st)) (currentModel st) = NotOk m \<Longrightarrow>
     request w st pageData = Inl (Error (''API request failed: '' @ m))"
  "remote w (length (fetched st)) (currentModel st) = Generated None \<Longrightarrow>
     request w st pageData = Inl (Error ''No response from Gemini API'')"
  "remote w (length (fetched st)) (currentModel st) = Generated (Some (Str [])) \<Longrightarrow>
     request w st pageData = Inl (Error ''No response from Gemini API'')"
  by (simp_all add: request_def)

lemma three_tier_scenario:
  assumes cur: "currentModel st = Some ''gemini-2.5-pro''"
    and f1: "request w st pageData = Inl e1"
    and f2: "request w (st\<lparr>fetched := fetched st @ [Some ''gemini-2.5-pro''],
                           currentModel := Some ''gemini-2.5-flash''\<rparr>) pageData = Inl e2"
  shows "(\<forall>r. request w (st\<lparr>fetched := fetched st @ [Some ''gemini-2.5-pro'', Some ''gemini-2.5-flash''],
                            currentModel := Some ''gemini-2.5-flash-lite''\<rparr>) pageData = Inr r \<longrightarrow>
              fst (analyzeWithGemini w st pageData) = Inr r \<and>
              modelUsed r = Some ''gemini-2.5-flash-lite'') \<and>
         (\<forall>e3. request w (st\<lparr>fetched := fetched st @ [Some ''gemini-2.5-pro'', Some ''gemini-2.5-flash''],
                             currentModel := Some ''gemini-2.5-flash-lite''\<rparr>) pageData = Inl e3 \<longrightarrow>
              fst (analyzeWithGemini w st pageData) =
                Inl (Error (''All Gemini models failed: '' @ message w e3)))"
proof -
  let ?stB = "st\<lparr>fetched := fetched st @ [Some ''gemini-2.5-pro''],
                 currentModel := Some ''gemini-2.5-flash''\<rparr>"
  let ?stC = "st\<lparr>fetched := fetched st @ [Some ''gemini-2.5-pro'', Some ''gemini-2.5-flash''],
                 currentModel := Some ''gemini-2.5-flash-lite''\<rparr>"
  let ?st2 = "st\<lparr>fetched := fetched st @ [currentModel st],
                 notices := notices st @
                   [(getModelDisplayName (currentModel st), getModelDisplayName (Some ''gemini-2.5-flash''))],
                 currentModel := Some ''gemini-2.5-flash''\<rparr>"
  let ?st3 = "?st2\<lparr>fetched := fetched ?st2 @ [currentModel ?st2],
                 notices := notices ?st2 @
                   [(getModelDisplayName (currentModel ?st2), getModelDisplayName (Some ''gemini-2.5-flash-lite''))],
                 currentModel := Some ''gemini-2.5-flash-lite''\<rparr>"
  have a1: "analyzeWithGemini w st pageData = analyzeWithGemini w ?st2 pageData"
    by (rule analyze_advance [OF f1 next_after_pro [OF cur]])
  have r2: "request w ?st2 pageData = request w ?stB pageData"
    by (rule request_cong) (simp_all add: cur)
  have c2: "currentModel ?st2 = Some ''gemini-2.5-flash''" by simp
  have a2: "analyzeWithGemini w ?st2 pageData = analyzeWithGemini w ?st3 pageData"
    by (rule analyze_advance [OF _ next_after_flash [OF c2]]) (simp only: r2 f2)
  have r3: "request w ?st3 pageData = request w ?stC pageData"
    by (rule request_cong) (simp_all add: cur)
  have c3: "currentModel ?st3 = Some ''gemini-2.5-flash-lite''" by simp
  show ?thesis
  proof (intro conjI allI impI)
    fix r
    assume "request w ?stC pageData = Inr r"
    with r3 have ok: "request w ?st3 pageData = Inr r" by simp
    from analyze_success [OF ok] show "fst (analyzeWithGemini w st pageData) = Inr r"
      unfolding a1 a2 by simp
    from request_model [OF ok] show "modelUsed r = Some ''gemini-2.5-flash-lite''"
      by simp
  next
    fix e3
    assume "request w ?stC pageData = Inl e3"
    with r3 have bad: "request w ?st3 pageData = Inl e3" by simp
    from analyze_exhausted [OF bad next_after_flash_lite [OF c3]]
    show "fst (analyzeWithGemini w st pageData) =
            Inl (Error (''All Gemini models failed: '' @ message w e3))"
      unfolding a1 a2 by simp
  qed
qed

text \<open>A current model outside the chain gets one request and no fallback.\<close>

lemma next_outside_chain:
  assumes "currentModel st \<notin> Some ` set tier_chain"
  shows "getNextFallbackModel st = None"
proof -
  from assms have "currentModel st \<noteq> Some ''gemini-2.5-pro''"
    "currentModel st \<noteq> Some ''gemini-2.5-flash''"
    "currentModel st \<noteq> Some ''gemini-2.5-flash-lite''"
    unfolding tier_chain_eq by auto
  then show ?thesis
    by (auto simp: getNextFallbackModel_def GEMINI_CONFIG_models_def)
qed

lemma outside_chain_single_request:
  assumes out: "currentModel st \<notin> Some ` set tier_chain"
  shows "fetched (snd (analyzeWithGemini w st pageData)) = fetched st @ [currentModel st] \<and>
         notices (snd (analyzeWithGemini w st pageData)) = notices st \<and>
         (case request w st pageData of
            Inr r \<Rightarrow> fst (analyzeWithGemini w st pageData) = Inr r
          | Inl e \<Rightarrow> fst (analyzeWithGemini w st pageData) =
                       Inl (Error (''All Gemini models failed: '' @ message w e)))"
proof (cases "request w st pageData")
  case (Inl e)
  from analyze_exhausted [OF Inl next_outside_chain [OF out]] Inl show ?thesis
    by simp
next
  case (Inr r)
  from analyze_success [OF Inr] Inr show ?thesis
    by simp
qed

lemma tier_chain_distinct: "distinct tier_chain"
  unfolding tier_chain_eq by simp

text \<open>
  Claim C4, as the code has it. \<open>this.currentModel\<close> is a field of the worker that all
  scans share, so the claim holds of a call of \<open>analyzeWithGemini\<close> that no other handler
  interrupts. Such a call computes the function \<open>analyzeWithGemini\<close>, in three steps at
  most. The tiers of the chain are distinct, and the requests of the call go to a run of
  consecutive tiers of the chain that starts at the current model: each tier at most
  once, in chain order, a tier only after the request to the tier before it failed, with
  one notice per advance and at most \<open>length tier_chain - 1\<close> advances. A result is the
  result of the last request and names its tier; an error is raised only after the last
  tier of the chain and is "All Gemini models failed:" followed by the message of the
  error of the request to that tier. With the chain [A, B, C], when the requests to A
  and B fail, a reply from C gives a result with \<open>modelUsed\<close> C, and a failure of C gives
  the error with the message of that failure. A current model that is no tier of the
  chain gets a single request and no fallback.
\<close>

theorem tier_fallback_order:
  "distinct tier_chain \<and>
   (proceed w ^^ 3) (analyzeWithGemini_call st pageData) =
     (Finished (fst (analyzeWithGemini w st pageData)), snd (analyzeWithGemini w st pageData)) \<and>
   (\<forall>i. i < length tier_chain \<and> currentModel st = Some (tier_chain ! i) \<longrightarrow>
      (\<exists>n. i + n < length tier_chain \<and> n \<le> length tier_chain - 1 \<and>
           fetched (snd (analyzeWithGemini w st pageData)) =
             fetched st @ map Some (take (Suc n) (drop i tier_chain)) \<and>
           length (notices (snd (analyzeWithGemini w st pageData))) = length (notices st) + n \<and>
           (\<forall>j<n. \<exists>err. request w (at_request st i j) pageData = Inl err) \<and>
           (case fst (analyzeWithGemini w st pageData) of
              Inr r \<Rightarrow> request w (at_request st i n) pageData = Inr r \<and>
                       modelUsed r = Some (tier_chain ! (i + n))
            | Inl e \<Rightarrow> Suc (i + n) = length tier_chain \<and>
                       (\<exists>err. request w (at_request st i n) pageData = Inl err \<and>
                              e = Error (''All Gemini models failed: '' @ message w err))))) \<and>
   (currentModel st = Some ''gemini-2.5-pro'' \<and>
    request w st pageData = Inl e1 \<and>
    request w (st\<lparr>fetched := fetched st @ [Some ''gemini-2.5-pro''],
                  currentModel := Some ''gemini-2.5-flash''\<rparr>) pageData = Inl e2 \<longrightarrow>
      (\<forall>r. request w (st\<lparr>fetched := fetched st @ [Some ''gemini-2.5-pro'', Some ''gemini-2.5-flash''],
                         currentModel := Some ''gemini-2.5-flash-lite''\<rparr>) pageData = Inr r \<longrightarrow>
           fst (analyzeWithGemini w st pageData) = Inr r \<and>
           modelUsed r = Some ''gemini-2.5-flash-lite'') \<and>
      (\<forall>e3. request w (st\<lparr>fetched := fetched st @ [Some ''gemini-2.5-pro'', Some ''gemini-2.5-flash''],
                          currentModel := Some ''gemini-2.5-flash-lite''\<rparr>) pageData = Inl e3 \<longrightarrow>
           fst (analyzeWithGemini w st pageData) =
             Inl (Error (''All Gemini models failed: '' @ message w e3)))) \<and>
   (currentModel st \<notin> Some ` set tier_chain \<longrightarrow>
      fetched (snd (analyzeWithGemini w st pageData)) = fetched st @ [currentModel st] \<and>
      notices (snd (analyzeWithGemini w st pageData)) = notices st \<and>
      (case request w st pageData of
         Inr r \<Rightarrow> fst (analyzeWithGemini w st pageData) = Inr r
       | Inl e \<Rightarrow> fst (analyzeWithGemini w st pageData) =
                    Inl (Error (''All Gemini models failed: '' @ message w e))))"
proof -
  have p1: "(proceed w ^^ 3) (analyzeWithGemini_call st pageData) =
     (Finished (fst (analyzeWithGemini w st pageData)), snd (analyzeWithGemini w st pageData))"
    using tiers_left_le [of "currentModel st"]
    by (intro analysis_uninterrupted) simp_all
  have p4: "currentModel st \<notin> Some ` set tier_chain \<longrightarrow>
      fetched (snd (analyzeWithGemini w st pageData)) = fetched st @ [currentModel st] \<and>
      notices (snd (analyzeWithGemini w st pageData)) = notices st \<and>
      (case request w st pageData of
         Inr r \<Rightarrow> fst (analyzeWithGemini w st pageData) = Inr r
       | Inl e \<Rightarrow> fst (analyzeWithGemini w st pageData) =
                    Inl (Error (''All Gemini models failed: '' @ message w e)))"
    by (rule impI) (rule outside_chain_single_request)
  have p2: "\<forall>i. i < length tier_chain \<and> currentModel st = Some (tier_chain ! i) \<longrightarrow>
      (\<exists>n. i + n < length tier_chain \<and> n \<le> length tier_chain - 1 \<and>
           fetched (snd (analyzeWithGemini w st pageData)) =
             fetched st @ map Some (take (Suc n) (drop i tier_chain)) \<and>
           length (notices (snd (analyzeWithGemini w st pageData))) = length (notices st) + n \<and>
           (\<forall>j<n. \<exists>err. request w (at_request st i j) pageData = Inl err) \<and>
           (case fst (analyzeWithGemini w st pageData) of
              Inr r \<Rightarrow> request w (at_request st i n) pageData = Inr r \<and>
                       modelUsed r = Some (tier_chain ! (i + n))
            | Inl e \<Rightarrow> Suc (i + n) = length tier_chain \<and>
                       (\<exists>err. request w (at_request st i n) pageData = Inl err \<and>
                              e = Error (''All Gemini models failed: '' @ message w err))))"
  proof (intro allI impI)
    fix i
    assume a: "i < length tier_chain \<and> currentModel st = Some (tier_chain ! i)"
    from tier_trace [of i st w pageData] a
    obtain n where n: "i + n < length tier_chain"
      and rest: "fetched (snd (analyzeWithGemini w st pageData)) =
             fetched st @ map Some (take (Suc n) (drop i tier_chain)) \<and>
           length (notices (snd (analyzeWithGemini w st pageData))) = length (notices st) + n \<and>
           (\<forall>j<n. \<exists>err. request w (at_request st i j) pageData = Inl err) \<and>
           (case fst (analyzeWithGemini w st pageData) of
              Inr r \<Rightarrow> request w (at_request st i n) pageData = Inr r \<and>
                       modelUsed r = Some (tier_chain ! (i + n))
            | Inl e \<Rightarrow> Suc (i + n) = length tier_chain \<and>
                       (\<exists>err. request w (at_request st i n) pageData = Inl err \<and>
                              e = Error (''All Gemini models failed: '' @ message w err)))"
      by blast
    from n have "n \<le> length tier_chain - 1" by simp
    with n rest
    show "\<exists>n. i + n < length tier_chain \<and> n \<le> length tier_chain - 1 \<and>
           fetched (snd (analyzeWithGemini w st pageData)) =
             fetched st @ map Some (take (Suc n) (drop i tier_chain)) \<and>
           length (notices (snd (analyzeWithGemini w st pageData))) = length (notices st) + n \<and>
           (\<forall>j<n. \<exists>err. request w (at_request st i j) pageData = Inl err) \<and>
           (case fst (analyzeWithGemini w st pageData) of
              Inr r \<Rightarrow> request w (at_request st i n) pageData = Inr r \<and>
                       modelUsed r = Some (tier_chain ! (i + n))
            | Inl e \<Rightarrow> Suc (i + n) = length tier_chain \<and>
                       (\<exists>err. request w (at_request st i n) pageData = Inl err \<and>
                              e = Error (''All Gemini models failed: '' @ message w err)))"
      by blast
  qed
  have p3: "currentModel st = Some ''gemini-2.5-pro'' \<and>
    request w st pageData = Inl e1 \<and>
    request w (st\<lparr>fetched := fetched st @ [Some ''gemini-2.5-pro''],
                  currentModel := Some ''gemini-2.5-flash''\<rparr>) pageData = Inl e2 \<longrightarrow>
      (\<forall>r. request w (st\<lparr>fetched := fetched st @ [Some ''gemini-2.5-pro'', Some ''gemini-2.5-flash''],
                         currentModel := Some ''gemini-2.5-flash-lite''\<rparr>) pageData = Inr r \<longrightarrow>
           fst (analyzeWithGemini w st pageData) = Inr r \<and>
           modelUsed r = Some ''gemini-2.5-flash-lite'') \<and>
      (\<forall>e3. request w (st\<lparr>fetched := fetched st @ [Some ''gemini-2.5-pro'', Some ''gemini-2.5-flash''],
                          currentModel := Some ''gemini-2.5-flash-lite''\<rparr>) pageData = Inl e3 \<longrightarrow>
           fst (analyzeWithGemini w st pageData) =
             Inl (Error (''All Gemini models failed: '' @ message w e3)))"
  proof (rule impI)
    assume a: "currentModel st = Some ''gemini-2.5-pro'' \<and>
      request w st pageData = Inl e1 \<and>
      request w (st\<lparr>fetched := fetched st @ [Some ''gemini-2.5-pro''],
                    currentModel := Some ''gemini-2.5-flash''\<rparr>) pageData = Inl e2"
    then have cur: "currentModel st = Some ''gemini-2.5-pro''"
      and f1: "request w st pageData = Inl e1"
      and f2: "request w (st\<lparr>fetched := fetched st @ [Some ''gemini-2.5-pro''],
                    currentModel := Some ''gemini-2.5-flash''\<rparr>) pageData = Inl e2"
      by simp_all
    show "(\<forall>r. request w (st\<lparr>fetched := fetched st @ [Some ''gemini-2.5-pro'', Some ''gemini-2.5-flash''],
                         currentModel := Some ''gemini-2.5-flash-lite''\<rparr>) pageData = Inr r \<longrightarrow>
           fst (analyzeWithGemini w st pageData) = Inr r \<and>
           modelUsed r = Some ''gemini-2.5-flash-lite'') \<and>
      (\<forall>e3. request w (st\<lparr>fetched := fetched st @ [Some ''gemini-2.5-pro'', Some ''gemini-2.5-flash''],
                          currentModel := Some ''gemini-2.5-flash-lite''\<rparr>) pageData = Inl e3 \<longrightarrow>
           fst (analyzeWithGemini w st pageData) =
             Inl (Error (''All Gemini models failed: '' @ message w e3)))"
      by (rule three_tier_scenario [OF cur f1 f2])
  qed
  show ?thesis
    by (rule conjI [OF tier_chain_distinct conjI [OF p1 conjI [OF p2 conjI [OF p3 p4]]]])
qed

lemma example_pro_model: "currentModel example_pro = Some ''gemini-2.5-pro''"
  by (simp add: example_pro_def)

lemma example_first_fails: "request failing_world example_pro example_page = Inl TypeError"
  by code_simp

lemma example_second_fails:
  "request failing_world
     (example_pro\<lparr>fetched := fetched example_pro @ [Some ''gemini-2.5-pro''],
                  currentModel := Some ''gemini-2.5-flash''\<rparr>) example_page =
     Inl (Error ''No response from Gemini API'')"
  by code_simp

lemma example_third_replies:
  "request failing_world
     (example_pro\<lparr>fetched := fetched example_pro @ [Some ''gemini-2.5-pro'', Some ''gemini-2.5-flash''],
                  currentModel := Some ''gemini-2.5-flash-lite''\<rparr>) example_page =
     Inr \<lparr>legitimacyScore = Num 50,
          reasoning = [JStr ''Automated analysis based on response patterns''],
          url = ''https://example.com/'',
          timestamp = 1700000000000,
          fallback = True,
          modelUsed = Some ''gemini-2.5-flash-lite'',
          modelDisplayName = Some ''Gemini 2.5 Flash Lite''\<rparr>"
  by code_simp

lemma example_requests:
  "fetched (snd (analyzeWithGemini failing_world example_pro example_page)) =
     [Some ''gemini-2.5-pro'', Some ''gemini-2.5-flash'', Some ''gemini-2.5-flash-lite'']"
  by code_simp

lemma example_flash_tier:
  "1 < length tier_chain \<and> currentModel example_flash = Some (tier_chain ! 1)"
  by code_simp

lemma example_flash_exhausted:
  "fst (analyzeWithGemini refusing_world example_flash example_page) =
     Inl (Error ''All Gemini models failed: API request failed: overloaded'')"
  by code_simp

lemma tier_chain_length: "length tier_chain = 3"
  by (simp add: tier_chain_eq)

text \<open>
  Two calls. With the first tier selected, a transport failure of the first request
  and an empty answer to the second, the reply to the third gives a result that names
  the third tier. With the second tier selected and a remote side that refuses every
  request, the call ends after the request to the third tier, with the message of the
  error of that request.
\<close>

theorem tier_fallback_order_witness:
  "currentModel example_pro = Some ''gemini-2.5-pro'' \<and>
   request failing_world example_pro example_page = Inl TypeError \<and>
   request failing_world
     (example_pro\<lparr>fetched := fetched example_pro @ [Some ''gemini-2.5-pro''],
                  currentModel := Some ''gemini-2.5-flash''\<rparr>) example_page =
     Inl (Error ''No response from Gemini API'') \<and>
   fst (analyzeWithGemini failing_world example_pro example_page) =
     Inr \<lparr>legitimacyScore = Num 50,
          reasoning = [JStr ''Automated analysis based on response patterns''],
          url = ''https://example.com/'',
          timestamp = 1700000000000,
          fallback = True,
          modelUsed = Some ''gemini-2.5-flash-lite'',
          modelDisplayName = Some ''Gemini 2.5 Flash Lite''\<rparr> \<and>
   fetched (snd (analyzeWithGemini failing_world example_pro example_page)) =
     [Some ''gemini-2.5-pro'', Some ''gemini-2.5-flash'', Some ''gemini-2.5-flash-lite''] \<and>
   1 < length tier_chain \<and> currentModel example_flash = Some (tier_chain ! 1) \<and>
   (\<exists>err. request refusing_world (at_request example_flash 1 0) example_page = Inl err) \<and>
   (\<exists>err. request refusing_world (at_request example_flash 1 1) example_page = Inl err \<and>
          fst (analyzeWithGemini refusing_world example_flash example_page) =
            Inl (Error (''All Gemini models failed: '' @ message refusing_world err)))"
proof -
  from tier_fallback_order [of failing_world example_pro example_page TypeError
      "Error ''No response from Gemini API''"]
    example_pro_model example_first_fails example_second_fails example_third_replies
  have a: "fst (analyzeWithGemini failing_world example_pro example_page) =
     Inr \<lparr>legitimacyScore = Num 50,
          reasoning = [JStr ''Automated analysis based on response patterns''],
          url = ''https://example.com/'',
          timestamp = 1700000000000,
          fallback = True,
          modelUsed = Some ''gemini-2.5-flash-lite'',
          modelDisplayName = Some ''Gemini 2.5 Flash Lite''\<rparr>"
    by blast
  from tier_fallback_order [of refusing_world example_flash example_page] example_flash_tier
  obtain n where
    q: "\<forall>j<n. \<exists>err. request refusing_world (at_request example_flash 1 j) example_page = Inl err"
    and c: "(case fst (analyzeWithGemini refusing_world example_flash example_page) of
           Inr r \<Rightarrow> request refusing_world (at_request example_flash 1 n) example_page = Inr r \<and>
                    modelUsed r = Some (tier_chain ! (1 + n))
         | Inl e \<Rightarrow> Suc (1 + n) = length tier_chain \<and>
                    (\<exists>err. request refusing_world (at_request example_flash 1 n) example_page = Inl err \<and>
                           e = Error (''All Gemini models failed: '' @ message refusing_world err)))"
    by blast
  from c have n: "Suc (1 + n) = length tier_chain"
    and e: "\<exists>err. request refusing_world (at_request example_flash 1 n) example_page = Inl err \<and>
              Error ''All Gemini models failed: API request failed: overloaded'' =
                Error (''All Gemini models failed: '' @ message refusing_world err)"
    unfolding example_flash_exhausted by simp_all
  from n have "n = 1"
    unfolding tier_chain_length by simp
  with e have b: "\<exists>err. request refusing_world (at_request example_flash 1 1) example_page = Inl err \<and>
          fst (analyzeWithGemini refusing_world example_flash example_page) =
            Inl (Error (''All Gemini models failed: '' @ message refusing_world err))"
    unfolding example_flash_exhausted by simp
  from q \<open>n = 1\<close>
  have b0: "\<exists>err. request refusing_world (at_request example_flash 1 0) example_page = Inl err"
    by simp
  from a b b0 example_pro_model example_first_fails example_second_fails example_requests
    example_flash_tier
  show ?thesis by blast
qed

text \<open>
  Two scans that overlap. The scan of tab 1 asks the first tier and then the second;
  before the second answers, a scan of tab 2 starts and loads the settings, which sets
  \<open>this.currentModel\<close> back to the first tier; the scan of tab 1 then finds the first
  tier current and asks the second tier again. The scan of tab 2 has sent no request:
  it waits for the page.
\<close>

theorem tier_asked_twice_counterexample:
  "fetched (self (run pro_worker overlapping_scans)) =
     [Some ''gemini-2.5-pro'', Some ''gemini-2.5-flash'', Some ''gemini-2.5-flash''] \<and>
   \<not> distinct (fetched (self (run pro_worker overlapping_scans))) \<and>
   map scan_tabId (scans (run pro_worker overlapping_scans)) = [1, 2] \<and>
   scan_phase (scans (run pro_worker overlapping_scans) ! 0) =
     AwaitFetch example_page 2 (Some ''gemini-2.5-flash'') \<and>
   scan_phase (scans (run pro_worker overlapping_scans) ! 1) = AwaitPage"
  by code_simp

section \<open>Threshold updates in the popup\<close>

















end
